theory Spec2Isabelle
  imports Complex_Main "HOL-Library.Word"
begin

section \<open>Data model of the OCR server (server.cpp)\<close>

type_synonym byte = "8 word"

text \<open>
  Points and durations of \<^verbatim>\<open>std::chrono::steady_clock\<close> are counts of clock ticks; the
  tick is one nanosecond. The representation is a signed 64-bit count in the source; the
  model uses unbounded integers (the clock would need centuries to leave 64 bits).
\<close>

type_synonym time_point = int

definition seconds :: "int \<Rightarrow> int" where
  "seconds n = n * 1000000000"

text \<open>
  \<^verbatim>\<open>duration_cast<milliseconds>(d).count()\<close>: integer division of the nanosecond count
  by 1000000, truncating towards zero.
\<close>

definition duration_cast_milliseconds :: "int \<Rightarrow> int" where
  "duration_cast_milliseconds d =
     (if 0 \<le> d then d div 1000000 else - ((- d) div 1000000))"

text \<open>
  \<^verbatim>\<open>struct OcrTask\<close> (lines 26-32). The promise is shared between the worker and the
  handler through the \<^verbatim>\<open>shared_ptr\<close>; the model stores every promise's shared state in
  a store and the task holds its address.
\<close>

record OcrTask =
  file_name :: string
  language_code :: string
  image_data :: "byte list"
  text_promise :: nat
  task_start_time :: time_point

text \<open>The messages of the remote call, with the fields the code reads and writes.\<close>

record ProcessImageRequest =
  client_id :: string
  batch_id :: string
  filename :: string
  image :: "byte list"
  lang :: string

record ProcessImageResponse =
  ok :: bool
  "text" :: string
  message :: string
  processing_time_ms :: int

text \<open>A response message as gRPC hands it to the handler: every field at its default.\<close>

definition default_response :: ProcessImageResponse where
  "default_response = \<lparr>ok = False, text = [], message = [], processing_time_ms = 0\<rparr>"

text \<open>
  The server context carries the deadline the caller set on its client context. The
  handler receives it as its first argument.
\<close>

record ServerContext =
  deadline :: time_point

section \<open>The client's call wrapper (ImageTextExtractor::extractFromImage)\<close>

text \<open>The default of the parameter \<^verbatim>\<open>max_wait_seconds\<close> (line 45).\<close>

definition default_max_wait_seconds :: int where
  "default_max_wait_seconds = 120"

text \<open>Lines 46-51: the request the client sends; the language is the literal "eng".\<close>

definition extraction_request ::
  "string \<Rightarrow> string \<Rightarrow> string \<Rightarrow> byte list \<Rightarrow> ProcessImageRequest" where
  "extraction_request session_identifier job_group_id file_path image_bytes =
     \<lparr>client_id = session_identifier, batch_id = job_group_id, filename = file_path,
      image = image_bytes, lang = ''eng''\<rparr>"

text \<open>Lines 56-58: the deadline of the call, from the client's clock reading \<open>now\<close>.\<close>

definition client_context :: "time_point \<Rightarrow> int \<Rightarrow> ServerContext" where
  "client_context now max_wait_seconds = \<lparr>deadline = now + seconds max_wait_seconds\<rparr>"

section \<open>The external libraries\<close>

text \<open>
  Leptonica and Tesseract are not part of the repository. The model takes them as a
  parameter: a record of functions over an abstract pixel buffer \<open>'pix\<close> and an abstract
  engine state \<open>'eng\<close>. A pointer result is an option (\<open>None\<close> is the null pointer). Every
  call inside the worker's \<^verbatim>\<open>try\<close> block may throw; a call on the engine also returns
  the engine's next state.
\<close>

datatype exc = std_exception string | other_exception

record ('pix, 'eng) ocr_lib =
  pixReadMem :: "byte list \<Rightarrow> exc + 'pix option"
  pixConvertTo8 :: "'pix \<Rightarrow> int \<Rightarrow> exc + 'pix option"
  pixGammaTRC :: "'pix option \<Rightarrow> 'pix option \<Rightarrow> real \<Rightarrow> int \<Rightarrow> int \<Rightarrow> exc + 'pix option"
  TessBaseAPI :: 'eng
  Init :: "'eng \<Rightarrow> string \<Rightarrow> string \<Rightarrow> 'eng \<times> int"
  SetImage :: "'eng \<Rightarrow> 'pix option \<Rightarrow> 'eng \<times> exc option"
  GetUTF8Text :: "'eng \<Rightarrow> 'eng \<times> (exc + string option)"

text \<open>The library calls a worker makes for one task, in the order it makes them.\<close>

datatype 'pix lib_call =
    Call_pixReadMem "byte list"
  | Call_pixConvertTo8 'pix int
  | Call_pixGammaTRC "'pix option" "'pix option" real int int
  | Call_SetImage "'pix option"
  | Call_GetUTF8Text

section \<open>The result channel: std::promise and std::future\<close>

text \<open>
  The shared state of a \<^verbatim>\<open>std::promise<std::string>\<close> is \<open>None\<close> until a value is
  stored. \<^verbatim>\<open>set_value\<close> on a state that already holds a value throws
  \<^verbatim>\<open>future_error(promise_already_satisfied)\<close> and leaves the state as it is.
\<close>

datatype future_errc = promise_already_satisfied

definition set_value ::
  "(nat \<Rightarrow> string option) \<Rightarrow> nat \<Rightarrow> string \<Rightarrow> future_errc + (nat \<Rightarrow> string option)" where
  "set_value store p v =
     (case store p of
        None \<Rightarrow> Inr (store(p := Some v))
      | Some _ \<Rightarrow> Inl promise_already_satisfied)"

text \<open>Lines 139-141: the worker's write, with every exception swallowed.\<close>

definition deliver :: "(nat \<Rightarrow> string option) \<Rightarrow> nat \<Rightarrow> string \<Rightarrow> (nat \<Rightarrow> string option)" where
  "deliver store p v = (case set_value store p v of Inr store' \<Rightarrow> store' | Inl _ \<Rightarrow> store)"

section \<open>The worker's processing of one task (lines 100-133)\<close>

text \<open>
  The body of the \<^verbatim>\<open>try\<close> block. The result is the engine's next state, the library
  calls made, and either the exception that left the block or the extracted text.
  The literal \<^verbatim>\<open>1.2f\<close> is kept as the decimal the source writes.
\<close>

definition try_block ::
  "('pix, 'eng) ocr_lib \<Rightarrow> 'eng \<Rightarrow> OcrTask \<Rightarrow> 'eng \<times> 'pix lib_call list \<times> (exc + string)" where
  "try_block lib eng current_task =
     (let c1 = Call_pixReadMem (image_data current_task) in
      case pixReadMem lib (image_data current_task) of
        Inl e \<Rightarrow> (eng, [c1], Inl e)
      | Inr None \<Rightarrow> (eng, [c1], Inr [])
      | Inr (Some image_pix) \<Rightarrow>
          (let c2 = Call_pixConvertTo8 image_pix 0 in
           case pixConvertTo8 lib image_pix 0 of
             Inl e \<Rightarrow> (eng, [c1, c2], Inl e)
           | Inr gray_pix \<Rightarrow>
               (let c3 = Call_pixGammaTRC None gray_pix 1.2 50 180 in
                case pixGammaTRC lib None gray_pix 1.2 50 180 of
                  Inl e \<Rightarrow> (eng, [c1, c2, c3], Inl e)
                | Inr enhanced_pix \<Rightarrow>
                    (let c4 = Call_SetImage enhanced_pix in
                     case SetImage lib eng enhanced_pix of
                       (eng1, Some e) \<Rightarrow> (eng1, [c1, c2, c3, c4], Inl e)
                     | (eng1, None) \<Rightarrow>
                         (case GetUTF8Text lib eng1 of
                            (eng2, Inl e) \<Rightarrow> (eng2, [c1, c2, c3, c4, Call_GetUTF8Text], Inl e)
                          | (eng2, Inr None) \<Rightarrow>
                              (eng2, [c1, c2, c3, c4, Call_GetUTF8Text], Inr [])
                          | (eng2, Inr (Some ocr_result)) \<Rightarrow>
                              (eng2, [c1, c2, c3, c4, Call_GetUTF8Text], Inr ocr_result))))))"

text \<open>The two \<^verbatim>\<open>catch\<close> clauses (lines 129-133).\<close>

fun catch_clauses :: "exc + string \<Rightarrow> string" where
  "catch_clauses (Inr extracted) = extracted"
| "catch_clauses (Inl (std_exception what)) = ''ERROR: '' @ what"
| "catch_clauses (Inl other_exception) = ''ERROR: unknown exception''"

definition extracted_text :: "('pix, 'eng) ocr_lib \<Rightarrow> 'eng \<Rightarrow> OcrTask \<Rightarrow> 'eng \<times> string" where
  "extracted_text lib eng current_task =
     (case try_block lib eng current_task of (eng', calls, r) \<Rightarrow> (eng', catch_clauses r))"

definition library_calls :: "('pix, 'eng) ocr_lib \<Rightarrow> 'eng \<Rightarrow> OcrTask \<Rightarrow> 'pix lib_call list" where
  "library_calls lib eng current_task = fst (snd (try_block lib eng current_task))"

section \<open>The state of the server and its threads\<close>

text \<open>
  A worker thread runs \<^verbatim>\<open>TaskProcessor::processTasks\<close>. Its program counter:
  \<^item> \<open>Starting\<close>: before the engine's \<^verbatim>\<open>Init\<close> (lines 74-78);
  \<^item> \<open>Checking\<close>: at the condition variable's predicate, about to take the lock (line 83);
  \<^item> \<open>Asleep\<close>: blocked inside \<^verbatim>\<open>task_available_.wait\<close>, the predicate was false;
  \<^item> \<open>Processing t\<close>: holds \<open>t\<close> as \<^verbatim>\<open>current_task\<close>, before the \<^verbatim>\<open>try\<close> block;
  \<^item> \<open>Finished t s\<close>: \<^verbatim>\<open>extracted_text\<close> is \<open>s\<close>, before the write to the promise;
  \<^item> \<open>Exited\<close>: returned from the loop (line 88).
\<close>

datatype worker_pc =
    Starting
  | Checking
  | Asleep
  | Processing OcrTask
  | Finished OcrTask string
  | Exited

record 'eng worker =
  pc :: worker_pc
  ocr_engine :: 'eng
  joined :: bool

text \<open>
  A handler thread runs \<^verbatim>\<open>OCRServiceHandler::ProcessImage\<close> for one request:
  \<^item> \<open>Created t\<close>: the task is built (lines 164-170);
  \<^item> \<open>Notifying t\<close>: the task is pushed (lines 50-55), \<^verbatim>\<open>notify_one\<close> is next;
  \<^item> \<open>Calling_wait t\<close>: \<^verbatim>\<open>submitTask\<close> returned, \<^verbatim>\<open>wait_for\<close> is next;
  \<^item> \<open>Waiting t d\<close>: inside \<^verbatim>\<open>wait_for\<close>, which times out at \<open>d\<close>;
  \<^item> \<open>Responded r\<close>: returned \<^verbatim>\<open>Status::OK\<close> with the response \<open>r\<close>.
\<close>

datatype handler_pc =
    Created OcrTask
  | Notifying OcrTask
  | Calling_wait OcrTask
  | Waiting OcrTask time_point
  | Responded ProcessImageResponse

text \<open>
  The main thread: serving, or inside \<^verbatim>\<open>stopProcessing\<close> (after the flag is set, in
  the join loop at index \<open>i\<close>), or back from it.
\<close>

datatype main_pc =
    Serving
  | Stop_notifying
  | Stop_joining nat
  | Stop_returned

text \<open>
  The two lines the code prints under the queue's lock: a task submitted (lines 53-54)
  and a task dequeued (lines 93-94). The model's entry holds the task where the source
  prints its file name, and the dequeuing worker, which the source prints on its next line
  (lines 97-98).
\<close>

datatype log_entry =
    Task_submitted OcrTask
  | Task_dequeued nat OcrTask

text \<open>
  The state of the whole server. The first three fields are the members
  \<^verbatim>\<open>pending_tasks_\<close>, \<^verbatim>\<open>shutdown_requested_\<close> and \<^verbatim>\<open>workers_\<close> of
  \<^verbatim>\<open>TaskProcessor\<close>, all read and written under \<^verbatim>\<open>queue_mutex_\<close> (the names lose
  their last underscore, which a name cannot end with here). The condition variable
  \<^verbatim>\<open>task_available_\<close> is the set of workers that are \<open>Asleep\<close>. Then the store of the
  promises' shared states and its allocation counter, the handler threads in the order of
  their requests, the main thread, the steady clock (its epoch is the construction of the
  server) and the log.
\<close>

record 'eng server_state =
  pending_tasks :: "OcrTask list"
  shutdown_requested :: bool
  workers :: "'eng worker list"
  promises :: "nat \<Rightarrow> string option"
  next_promise :: nat
  handlers :: "handler_pc list"
  main_thread :: main_pc
  clock :: time_point
  queue_log :: "log_entry list"

text \<open>The constructor (lines 37-41): \<open>worker_count\<close> threads, none of them started yet.\<close>

definition TaskProcessor :: "('pix, 'eng) ocr_lib \<Rightarrow> nat \<Rightarrow> 'eng server_state" where
  "TaskProcessor lib worker_count =
     \<lparr>pending_tasks = [], shutdown_requested = False,
      workers = replicate worker_count
        \<lparr>pc = Starting, ocr_engine = TessBaseAPI lib, joined = False\<rparr>,
      promises = (\<lambda>p. None), next_promise = 0, handlers = [],
      main_thread = Serving, clock = 0, queue_log = []\<rparr>"

section \<open>The condition variable\<close>

definition wake :: "'eng worker \<Rightarrow> 'eng worker" where
  "wake wk = (if pc wk = Asleep then wk\<lparr>pc := Checking\<rparr> else wk)"

fun wake_first :: "'eng worker list \<Rightarrow> 'eng worker list" where
  "wake_first [] = []"
| "wake_first (wk # ws) = (if pc wk = Asleep then wk\<lparr>pc := Checking\<rparr> # ws else wk # wake_first ws)"

text \<open>
  \<^verbatim>\<open>notify_one\<close> wakes one of the threads blocked in the wait, if there is one. Which
  one is the scheduler's choice \<open>k\<close>; when worker \<open>k\<close> is not blocked the first blocked
  worker is taken.
\<close>

definition notify_one :: "nat \<Rightarrow> 'eng worker list \<Rightarrow> 'eng worker list" where
  "notify_one k ws =
     (if k < length ws \<and> pc (ws ! k) = Asleep then ws[k := wake (ws ! k)] else wake_first ws)"

definition notify_all :: "'eng worker list \<Rightarrow> 'eng worker list" where
  "notify_all ws = map wake ws"

section \<open>The steps of the threads\<close>

text \<open>Lines 164-170: the handler builds the task. The context is not read.\<close>

definition new_task :: "ProcessImageRequest \<Rightarrow> nat \<Rightarrow> time_point \<Rightarrow> OcrTask" where
  "new_task request p now =
     \<lparr>file_name = filename request, language_code = lang request,
      image_data = image request, text_promise = p, task_start_time = now\<rparr>"

definition ProcessImage_begin ::
  "ServerContext \<Rightarrow> ProcessImageRequest \<Rightarrow> 'eng server_state \<Rightarrow> 'eng server_state" where
  "ProcessImage_begin context request s =
     s\<lparr>next_promise := Suc (next_promise s),
       handlers := handlers s @ [Created (new_task request (next_promise s) (clock s))]\<rparr>"

text \<open>Lines 50-55: the critical section of \<^verbatim>\<open>submitTask\<close>.\<close>

definition submitTask_locked :: "OcrTask \<Rightarrow> 'eng server_state \<Rightarrow> 'eng server_state" where
  "submitTask_locked task s =
     s\<lparr>pending_tasks := pending_tasks s @ [task],
       queue_log := queue_log s @ [Task_submitted task]\<rparr>"

text \<open>Lines 175-180 and 183-194: the two responses.\<close>

definition timeout_response :: ProcessImageResponse where
  "timeout_response = default_response\<lparr>ok := False, message := ''Image processing timeout''\<rparr>"

definition completed_response :: "string \<Rightarrow> time_point \<Rightarrow> OcrTask \<Rightarrow> ProcessImageResponse" where
  "completed_response result_text now task =
     default_response\<lparr>ok := True, text := result_text,
       processing_time_ms := duration_cast_milliseconds (now - task_start_time task)\<rparr>"

text \<open>
  One step of handler \<open>h\<close>. In \<open>Waiting\<close> the thread is inside
  \<^verbatim>\<open>wait_for(std::chrono::seconds(120))\<close>: it returns \<^verbatim>\<open>ready\<close> when the shared state
  holds a value, \<^verbatim>\<open>timeout\<close> when it holds none and the 120 seconds have passed, and
  stays blocked otherwise.
\<close>

definition ProcessImage_step :: "nat \<Rightarrow> nat \<Rightarrow> 'eng server_state \<Rightarrow> 'eng server_state" where
  "ProcessImage_step h k s =
     (case handlers s ! h of
        Created t \<Rightarrow> (submitTask_locked t s)\<lparr>handlers := (handlers s)[h := Notifying t]\<rparr>
      | Notifying t \<Rightarrow>
          s\<lparr>workers := notify_one k (workers s), handlers := (handlers s)[h := Calling_wait t]\<rparr>
      | Calling_wait t \<Rightarrow>
          s\<lparr>handlers := (handlers s)[h := Waiting t (clock s + seconds 120)]\<rparr>
      | Waiting t d \<Rightarrow>
          (case promises s (text_promise t) of
             Some result_text \<Rightarrow>
               s\<lparr>handlers := (handlers s)[h := Responded (completed_response result_text (clock s) t)]\<rparr>
           | None \<Rightarrow>
               if d \<le> clock s
               then s\<lparr>handlers := (handlers s)[h := Responded timeout_response]\<rparr>
               else s)
      | Responded r \<Rightarrow> s)"

text \<open>
  One step of worker \<open>w\<close> (lines 73-143). In \<open>Starting\<close> the engine is initialised; a
  failure of \<^verbatim>\<open>Init\<close> is printed and the worker goes on (lines 75-78). In \<open>Checking\<close>
  the worker holds the lock and evaluates the predicate of the wait (line 85): when it is
  false the worker blocks, when it is true the worker returns (line 88) or takes the front
  task (lines 90-94); the queue is not empty there, so \<open>hd\<close> and \<open>tl\<close> are
  \<^verbatim>\<open>front()\<close> and \<^verbatim>\<open>pop()\<close>.
\<close>

definition processTasks_step ::
  "('pix, 'eng) ocr_lib \<Rightarrow> nat \<Rightarrow> 'eng server_state \<Rightarrow> 'eng server_state" where
  "processTasks_step lib w s =
     (let wk = workers s ! w in
      case pc wk of
        Starting \<Rightarrow>
          (case Init lib (ocr_engine wk) ''/opt/homebrew/share/tessdata'' ''eng'' of
             (eng, failed) \<Rightarrow> s\<lparr>workers := (workers s)[w := wk\<lparr>pc := Checking, ocr_engine := eng\<rparr>]\<rparr>)
      | Checking \<Rightarrow>
          if shutdown_requested s \<or> pending_tasks s \<noteq> []
          then
            if shutdown_requested s \<and> pending_tasks s = []
            then s\<lparr>workers := (workers s)[w := wk\<lparr>pc := Exited\<rparr>]\<rparr>
            else
              s\<lparr>pending_tasks := tl (pending_tasks s),
                queue_log := queue_log s @ [Task_dequeued w (hd (pending_tasks s))],
                workers := (workers s)[w := wk\<lparr>pc := Processing (hd (pending_tasks s))\<rparr>]\<rparr>
          else s\<lparr>workers := (workers s)[w := wk\<lparr>pc := Asleep\<rparr>]\<rparr>
      | Asleep \<Rightarrow> s
      | Processing t \<Rightarrow>
          (case extracted_text lib (ocr_engine wk) t of
             (eng, txt) \<Rightarrow>
               s\<lparr>workers := (workers s)[w := wk\<lparr>pc := Finished t txt, ocr_engine := eng\<rparr>]\<rparr>)
      | Finished t txt \<Rightarrow>
          s\<lparr>promises := deliver (promises s) (text_promise t) txt,
            workers := (workers s)[w := wk\<lparr>pc := Checking\<rparr>]\<rparr>
      | Exited \<Rightarrow> s)"

text \<open>A blocked worker may wake without a notification; it then checks the predicate again.\<close>

definition spurious_wakeup :: "nat \<Rightarrow> 'eng server_state \<Rightarrow> 'eng server_state" where
  "spurious_wakeup w s =
     (if w < length (workers s) then s\<lparr>workers := (workers s)[w := wake (workers s ! w)]\<rparr> else s)"

text \<open>Lines 60-64: the critical section of \<^verbatim>\<open>stopProcessing\<close>, with its early return.\<close>

definition stopProcessing_locked :: "'eng server_state \<Rightarrow> 'eng server_state" where
  "stopProcessing_locked s =
     (if shutdown_requested s then s\<lparr>main_thread := Stop_returned\<rparr>
      else s\<lparr>shutdown_requested := True, main_thread := Stop_notifying\<rparr>)"

text \<open>
  One step of the main thread. From \<open>Serving\<close> it calls \<^verbatim>\<open>stopProcessing\<close> (main,
  line 223); from \<open>Stop_returned\<close> it calls it again (the destructor, line 44). Inside
  the call: \<^verbatim>\<open>notify_all\<close> (line 65), then the join loop (lines 66-68), where joining a
  worker that has not returned blocks.
\<close>

definition stopProcessing_step :: "'eng server_state \<Rightarrow> 'eng server_state" where
  "stopProcessing_step s =
     (case main_thread s of
        Serving \<Rightarrow> stopProcessing_locked s
      | Stop_notifying \<Rightarrow> s\<lparr>workers := notify_all (workers s), main_thread := Stop_joining 0\<rparr>
      | Stop_joining i \<Rightarrow>
          if i < length (workers s)
          then
            if \<not> joined (workers s ! i)
            then
              if pc (workers s ! i) = Exited
              then s\<lparr>workers := (workers s)[i := (workers s ! i)\<lparr>joined := True\<rparr>],
                     main_thread := Stop_joining (Suc i)\<rparr>
              else s
            else s\<lparr>main_thread := Stop_joining (Suc i)\<rparr>
          else s\<lparr>main_thread := Stop_returned\<rparr>
      | Stop_returned \<Rightarrow> stopProcessing_locked s)"

section \<open>Schedules\<close>

text \<open>
  An event is one atomic step of one thread, chosen by the scheduler, or the passing of
  time. A step is either a critical section under \<^verbatim>\<open>queue_mutex_\<close>, or one call on a
  condition variable, a promise or a future, or code that touches only what the thread
  owns. A schedule is a list of events; every interleaving of the threads is a schedule:
  \<^item> \<open>Tick d\<close>: the steady clock advances by \<open>d\<close> nanoseconds;
  \<^item> \<open>Receive context request\<close>: a request arrives and a new handler thread builds its task;
  \<^item> \<open>Handler h k\<close>: handler \<open>h\<close> takes its next step (\<open>k\<close> is the worker that a
    \<^verbatim>\<open>notify_one\<close> in this step wakes);
  \<^item> \<open>Worker w\<close>: worker \<open>w\<close> takes its next step;
  \<^item> \<open>Spurious w\<close>: worker \<open>w\<close>, if blocked, wakes without a notification;
  \<^item> \<open>Stop\<close>: the main thread takes its next step in \<^verbatim>\<open>stopProcessing\<close>.
  An event of a thread that is blocked, has returned or does not exist changes nothing.
\<close>

datatype event =
    Tick nat
  | Receive ServerContext ProcessImageRequest
  | Handler nat nat
  | Worker nat
  | Spurious nat
  | Stop

definition step :: "('pix, 'eng) ocr_lib \<Rightarrow> event \<Rightarrow> 'eng server_state \<Rightarrow> 'eng server_state" where
  "step lib ev s =
     (case ev of
        Tick d \<Rightarrow> s\<lparr>clock := clock s + int d\<rparr>
      | Receive context request \<Rightarrow> ProcessImage_begin context request s
      | Handler h k \<Rightarrow> if h < length (handlers s) then ProcessImage_step h k s else s
      | Worker w \<Rightarrow> if w < length (workers s) then processTasks_step lib w s else s
      | Spurious w \<Rightarrow> spurious_wakeup w s
      | Stop \<Rightarrow> stopProcessing_step s)"

fun run :: "('pix, 'eng) ocr_lib \<Rightarrow> event list \<Rightarrow> 'eng server_state \<Rightarrow> 'eng server_state" where
  "run lib [] s = s"
| "run lib (ev # evs) s = run lib evs (step lib ev s)"

text \<open>The tasks of the log, in the order of its lines.\<close>

fun submitted :: "log_entry list \<Rightarrow> OcrTask list" where
  "submitted [] = []"
| "submitted (Task_submitted t # es) = t # submitted es"
| "submitted (Task_dequeued w t # es) = submitted es"

fun dequeued :: "log_entry list \<Rightarrow> (nat \<times> OcrTask) list" where
  "dequeued [] = []"
| "dequeued (Task_submitted t # es) = dequeued es"
| "dequeued (Task_dequeued w t # es) = (w, t) # dequeued es"

section \<open>Auxiliary functions and invariants\<close>

text \<open>The task a handler thread holds, the task a worker holds, the response returned.\<close>

fun task_of :: "handler_pc \<Rightarrow> OcrTask option" where
  "task_of (Created t) = Some t"
| "task_of (Notifying t) = Some t"
| "task_of (Calling_wait t) = Some t"
| "task_of (Waiting t d) = Some t"
| "task_of (Responded r) = None"

fun current_task :: "worker_pc \<Rightarrow> OcrTask option" where
  "current_task (Processing t) = Some t"
| "current_task (Finished t r) = Some t"
| "current_task Starting = None"
| "current_task Checking = None"
| "current_task Asleep = None"
| "current_task Exited = None"

fun response_of :: "handler_pc \<Rightarrow> ProcessImageResponse option" where
  "response_of (Responded r) = Some r"
| "response_of (Created t) = None"
| "response_of (Notifying t) = None"
| "response_of (Calling_wait t) = None"
| "response_of (Waiting t d) = None"

text \<open>The queue never loses, repeats or reorders a task: the log and the queue agree.\<close>

definition fifo_ok :: "'eng server_state \<Rightarrow> bool" where
  "fifo_ok s \<longleftrightarrow>
     map snd (dequeued (queue_log s)) @ pending_tasks s = submitted (queue_log s)"

text \<open>
  Promises are allocated in the order of the requests: the task of handler \<open>h\<close> holds
  promise \<open>h\<close>, and a task is submitted once, by its handler.
\<close>

definition ids_ok :: "'eng server_state \<Rightarrow> bool" where
  "ids_ok s \<longleftrightarrow>
     next_promise s = length (handlers s) \<and>
     (\<forall>h t. h < length (handlers s) \<longrightarrow> task_of (handlers s ! h) = Some t \<longrightarrow> text_promise t = h) \<and>
     (\<forall>t \<in> set (submitted (queue_log s)).
        text_promise t < length (handlers s) \<and>
        (\<forall>t'. handlers s ! text_promise t \<noteq> Created t')) \<and>
     distinct (map text_promise (submitted (queue_log s)))"

text \<open>The steady clock never runs backwards: no task was created in the future.\<close>

definition time_ok :: "'eng server_state \<Rightarrow> bool" where
  "time_ok s \<longleftrightarrow>
     (\<forall>h t. h < length (handlers s) \<longrightarrow> task_of (handlers s ! h) = Some t \<longrightarrow>
        task_start_time t \<le> clock s)"

text \<open>
  The flag is set exactly when \<^verbatim>\<open>stopProcessing\<close> has been entered; a worker returns only
  under the flag; after \<^verbatim>\<open>notify_all\<close> no worker is blocked; the join loop has joined the
  workers before its index, and the call returns when all are joined.
\<close>

definition shutdown_ok :: "'eng server_state \<Rightarrow> bool" where
  "shutdown_ok s \<longleftrightarrow>
     (shutdown_requested s \<longleftrightarrow> main_thread s \<noteq> Serving) \<and>
     (\<forall>w < length (workers s). pc (workers s ! w) = Exited \<longrightarrow> shutdown_requested s) \<and>
     (\<forall>w < length (workers s). joined (workers s ! w) \<longrightarrow> pc (workers s ! w) = Exited) \<and>
     (case main_thread s of
        Serving \<Rightarrow> True
      | Stop_notifying \<Rightarrow> True
      | Stop_joining i \<Rightarrow>
          i \<le> length (workers s) \<and>
          (\<forall>w < length (workers s). pc (workers s ! w) \<noteq> Asleep) \<and>
          (\<forall>j < i. pc (workers s ! j) = Exited \<and> joined (workers s ! j))
      | Stop_returned \<Rightarrow>
          (\<forall>w < length (workers s). pc (workers s ! w) = Exited \<and> joined (workers s ! w)))"

text \<open>
  A worker holds only a task it dequeued, whose promise is still empty; only the promise
  of a dequeued task is ever written.
\<close>

definition holding_ok :: "'eng server_state \<Rightarrow> bool" where
  "holding_ok s \<longleftrightarrow>
     (\<forall>w t. w < length (workers s) \<longrightarrow> current_task (pc (workers s ! w)) = Some t \<longrightarrow>
        (w, t) \<in> set (dequeued (queue_log s)) \<and> promises s (text_promise t) = None) \<and>
     (\<forall>p v. promises s p = Some v \<longrightarrow> p \<in> set (map (text_promise \<circ> snd) (dequeued (queue_log s))))"

definition invariant :: "'eng server_state \<Rightarrow> bool" where
  "invariant s \<longleftrightarrow> fifo_ok s \<and> ids_ok s \<and> time_ok s \<and> shutdown_ok s \<and> holding_ok s"

section \<open>Functions used in the statements\<close>

text \<open>An event with the caller's deadline replaced.\<close>

fun set_deadline :: "time_point \<Rightarrow> event \<Rightarrow> event" where
  "set_deadline d (Receive context request) = Receive (context\<lparr>deadline := d\<rparr>) request"
| "set_deadline d (Tick n) = Tick n"
| "set_deadline d (Handler h k) = Handler h k"
| "set_deadline d (Worker w) = Worker w"
| "set_deadline d (Spurious w) = Spurious w"
| "set_deadline d Stop = Stop"

text \<open>
  The work left before every worker has returned, once shutdown is requested: four units
  for every pending task and, for every worker, the steps to the head of its loop and out.
\<close>

fun steps_left :: "worker_pc \<Rightarrow> nat" where
  "steps_left Starting = 2"
| "steps_left Checking = 1"
| "steps_left Asleep = 1"
| "steps_left (Processing t) = 3"
| "steps_left (Finished t r) = 2"
| "steps_left Exited = 0"

definition work_left :: "'eng server_state \<Rightarrow> nat" where
  "work_left s = 4 * length (pending_tasks s) + sum_list (map (\<lambda>wk. steps_left (pc wk)) (workers s))"

text \<open>
  A fair schedule for the workers alone: \<open>k\<close> rounds in which each of the \<open>n\<close> workers
  takes one step.
\<close>

definition worker_rounds :: "nat \<Rightarrow> nat \<Rightarrow> event list" where
  "worker_rounds n k = concat (replicate k (map Worker [0..<n]))"

text \<open>
  Erasing the language: a request, a task and a state with every language code replaced
  by the empty string. Two runs whose events are equal after erasure differ only in the
  \<^verbatim>\<open>lang\<close> fields of the requests received.
\<close>

definition erase_task :: "OcrTask \<Rightarrow> OcrTask" where
  "erase_task t = t\<lparr>language_code := []\<rparr>"

fun erase_event :: "event \<Rightarrow> event" where
  "erase_event (Receive context request) = Receive context (request\<lparr>lang := []\<rparr>)"
| "erase_event (Tick n) = Tick n"
| "erase_event (Handler h k) = Handler h k"
| "erase_event (Worker w) = Worker w"
| "erase_event (Spurious w) = Spurious w"
| "erase_event Stop = Stop"

fun erase_worker_pc :: "worker_pc \<Rightarrow> worker_pc" where
  "erase_worker_pc (Processing t) = Processing (erase_task t)"
| "erase_worker_pc (Finished t r) = Finished (erase_task t) r"
| "erase_worker_pc Starting = Starting"
| "erase_worker_pc Checking = Checking"
| "erase_worker_pc Asleep = Asleep"
| "erase_worker_pc Exited = Exited"

definition erase_worker :: "'eng worker \<Rightarrow> 'eng worker" where
  "erase_worker wk = wk\<lparr>pc := erase_worker_pc (pc wk)\<rparr>"

fun erase_handler_pc :: "handler_pc \<Rightarrow> handler_pc" where
  "erase_handler_pc (Created t) = Created (erase_task t)"
| "erase_handler_pc (Notifying t) = Notifying (erase_task t)"
| "erase_handler_pc (Calling_wait t) = Calling_wait (erase_task t)"
| "erase_handler_pc (Waiting t d) = Waiting (erase_task t) d"
| "erase_handler_pc (Responded r) = Responded r"

fun erase_log_entry :: "log_entry \<Rightarrow> log_entry" where
  "erase_log_entry (Task_submitted t) = Task_submitted (erase_task t)"
| "erase_log_entry (Task_dequeued w t) = Task_dequeued w (erase_task t)"

definition erase_state :: "'eng server_state \<Rightarrow> 'eng server_state" where
  "erase_state s =
     s\<lparr>pending_tasks := map erase_task (pending_tasks s),
       workers := map erase_worker (workers s),
       handlers := map erase_handler_pc (handlers s),
       queue_log := map erase_log_entry (queue_log s)\<rparr>"

section \<open>A stand-in library for evaluating the model\<close>

text \<open>
  The theorems below hold for every library. To run the model on concrete schedules a
  small library is fixed: a pixel buffer is the list of bytes, the engine state is the
  image last set. An empty byte sequence does not decode (the null pointer), a single
  byte makes the decoder throw, recognition of a three-pixel image throws something that
  is not a \<^verbatim>\<open>std::exception\<close>, and otherwise recognition returns one letter for every
  pixel that is not zero.
\<close>

definition demo_lib :: "(byte list, byte list) ocr_lib" where
  "demo_lib =
     \<lparr>pixReadMem = (\<lambda>bytes. if bytes = [] then Inr None
                       else if length bytes = 1 then Inl (std_exception ''bad image'')
                       else Inr (Some bytes)),
      pixConvertTo8 = (\<lambda>p d. Inr (Some p)),
      pixGammaTRC = (\<lambda>pixd pixs g lo hi. Inr pixs),
      TessBaseAPI = [],
      Init = (\<lambda>eng datapath language. (eng, 0)),
      SetImage = (\<lambda>eng p. (case p of None \<Rightarrow> eng | Some x \<Rightarrow> x, None)),
      GetUTF8Text = (\<lambda>eng. (eng, if length eng = 3 then Inl other_exception
                                   else Inr (Some (map (\<lambda>b. CHR ''x'') (filter (\<lambda>b. b \<noteq> 0) eng)))))\<rparr>"

definition demo_request :: "byte list \<Rightarrow> ProcessImageRequest" where
  "demo_request bytes = extraction_request ''session_1'' ''0'' ''a.png'' bytes"

text \<open>
  One request for a two-pixel image, served by a pool of one worker: the handler submits
  the task and starts its wait at time 0 (\<open>demo_submitted\<close>); the worker starts and takes
  the task (\<open>demo_taken\<close>), and processes it (\<open>demo_processing\<close>).
\<close>

definition demo_task :: OcrTask where
  "demo_task = new_task (demo_request [1, 2]) 0 0"

definition demo_submitted :: "event list" where
  "demo_submitted =
     [Receive (client_context 0 120) (demo_request [1, 2]), Handler 0 0, Handler 0 0, Handler 0 0]"

definition demo_taken :: "event list" where
  "demo_taken = demo_submitted @ [Worker 0, Worker 0]"

definition demo_processing :: "event list" where
  "demo_processing = demo_taken @ [Worker 0]"

text \<open>The same, and then 121 seconds pass before the handler runs again: it times out.\<close>

definition demo_abandoned :: "event list" where
  "demo_abandoned = demo_processing @ [Tick 121000000000, Handler 0 0]"

text \<open>
  The same beginning for an image of any bytes (\<open>demo_taken_with\<close>), and two requests in a
  row, both submitted before the one worker starts (\<open>demo_two_requests\<close>).
\<close>

definition demo_task_with :: "byte list \<Rightarrow> OcrTask" where
  "demo_task_with bytes = new_task (demo_request bytes) 0 0"

definition demo_taken_with :: "byte list \<Rightarrow> event list" where
  "demo_taken_with bytes =
     [Receive (client_context 0 120) (demo_request bytes), Handler 0 0, Handler 0 0, Handler 0 0,
      Worker 0, Worker 0]"

definition demo_two_requests :: "byte list \<Rightarrow> byte list \<Rightarrow> event list" where
  "demo_two_requests bytes1 bytes2 =
     [Receive (client_context 0 120) (demo_request bytes1), Handler 0 0, Handler 0 0, Handler 0 0,
      Receive (client_context 0 120) (demo_request bytes2), Handler 1 0, Handler 1 0, Handler 1 0,
      Worker 0, Worker 0]"

text \<open>
  Two workers that found the queue empty and sleep, then a request whose handler has
  pushed the task but not yet notified (\<open>demo_two_asleep\<close>); then shutdown: the flag, the
  \<^verbatim>\<open>notify_all\<close>, worker 0 takes, processes and delivers the task and returns, worker 1
  returns, and the main thread joins both (\<open>demo_shutdown\<close>).
\<close>

definition demo_two_asleep :: "event list" where
  "demo_two_asleep =
     [Worker 0, Worker 0, Worker 1, Worker 1,
      Receive (client_context 0 120) (demo_request [1, 2]), Handler 0 0]"

definition demo_shutdown :: "event list" where
  "demo_shutdown =
     [Stop, Stop, Worker 0, Worker 1, Worker 0, Worker 0, Worker 0, Stop, Stop, Stop]"

text \<open>A whole request, from its arrival to its response, with the language hint \<open>l\<close>.\<close>

definition demo_completed_with :: "string \<Rightarrow> event list" where
  "demo_completed_with l =
     [Receive (client_context 0 120) ((demo_request [1, 2])\<lparr>lang := l\<rparr>),
      Handler 0 0, Handler 0 0, Handler 0 0, Worker 0, Worker 0, Worker 0, Worker 0, Handler 0 0]"

text \<open>
  A request that arrives 2 milliseconds after the server is constructed
  (\<open>demo_arrival\<close>); its handler submits the task and starts its wait, the worker takes
  and processes the task and, 3 milliseconds later, writes the result
  (\<open>demo_fulfilled\<close>, the events after the arrival of the request).
\<close>

definition demo_arrival :: "event list" where
  "demo_arrival = [Tick 2000000]"

definition demo_fulfilled :: "event list" where
  "demo_fulfilled =
     [Handler 0 0, Handler 0 0, Handler 0 0, Worker 0, Worker 0, Worker 0, Tick 3000000, Worker 0]"

text \<open>
  The stand-in library with one more call that throws: the conversion to grayscale
  (stage 2), the contrast enhancement (stage 3) or \<^verbatim>\<open>SetImage\<close> (stage 4).
\<close>

definition demo_lib_raising :: "nat \<Rightarrow> (byte list, byte list) ocr_lib" where
  "demo_lib_raising stage =
     demo_lib
       \<lparr>pixConvertTo8 := (\<lambda>p d. if stage = 2 then Inl (std_exception ''no gray'')
                                else Inr (Some p)),
        pixGammaTRC := (\<lambda>pixd pixs g lo hi. if stage = 3 then Inl other_exception else Inr pixs),
        SetImage := (\<lambda>eng p. (case p of None \<Rightarrow> eng | Some x \<Rightarrow> x,
                                 if stage = 4 then Some (std_exception ''no image'') else None))\<rparr>"

section \<open>Basic facts about the steps\<close>

lemma submitted_append: "submitted (xs @ ys) = submitted xs @ submitted ys"
  by (induction xs rule: submitted.induct) simp_all

lemma dequeued_append: "dequeued (xs @ ys) = dequeued xs @ dequeued ys"
  by (induction xs rule: dequeued.induct) simp_all

lemma deliver_eq:
  "deliver store p v = (if store p = None then store(p := Some v) else store)"
  by (simp add: deliver_def set_value_def split: option.splits)

text \<open>Every step of the server is one of these; a blocked thread leaves the state as it is.\<close>

lemma step_cases [case_names Tick Receive Submit Notify Call_wait Complete Timeout Init Exit Take
    Sleep Process Deliver Spurious Stop_flag Stop_again Notify_all Join Skip_join Join_done Idle]:
  obtains
    (Tick) d where "ev = Tick d" "step lib ev s = s\<lparr>clock := clock s + int d\<rparr>"
  | (Receive) ctx req where "ev = Receive ctx req"
      "step lib ev s = s\<lparr>next_promise := Suc (next_promise s),
         handlers := handlers s @ [Created (new_task req (next_promise s) (clock s))]\<rparr>"
  | (Submit) h k t where "ev = Handler h k" "h < length (handlers s)" "handlers s ! h = Created t"
      "step lib ev s = s\<lparr>pending_tasks := pending_tasks s @ [t],
         queue_log := queue_log s @ [Task_submitted t],
         handlers := (handlers s)[h := Notifying t]\<rparr>"
  | (Notify) h k t where "ev = Handler h k" "h < length (handlers s)" "handlers s ! h = Notifying t"
      "step lib ev s = s\<lparr>workers := notify_one k (workers s),
         handlers := (handlers s)[h := Calling_wait t]\<rparr>"
  | (Call_wait) h k t where "ev = Handler h k" "h < length (handlers s)"
      "handlers s ! h = Calling_wait t"
      "step lib ev s = s\<lparr>handlers := (handlers s)[h := Waiting t (clock s + seconds 120)]\<rparr>"
  | (Complete) h k t d v where "ev = Handler h k" "h < length (handlers s)"
      "handlers s ! h = Waiting t d" "promises s (text_promise t) = Some v"
      "step lib ev s = s\<lparr>handlers := (handlers s)[h := Responded (completed_response v (clock s) t)]\<rparr>"
  | (Timeout) h k t d where "ev = Handler h k" "h < length (handlers s)"
      "handlers s ! h = Waiting t d" "promises s (text_promise t) = None" "d \<le> clock s"
      "step lib ev s = s\<lparr>handlers := (handlers s)[h := Responded timeout_response]\<rparr>"
  | (Init) w where "ev = Worker w" "w < length (workers s)" "pc (workers s ! w) = Starting"
      "step lib ev s = s\<lparr>workers := (workers s)[w := (workers s ! w)\<lparr>pc := Checking,
         ocr_engine := fst (Init lib (ocr_engine (workers s ! w))
           ''/opt/homebrew/share/tessdata'' ''eng'')\<rparr>]\<rparr>"
  | (Exit) w where "ev = Worker w" "w < length (workers s)" "pc (workers s ! w) = Checking"
      "shutdown_requested s" "pending_tasks s = []"
      "step lib ev s = s\<lparr>workers := (workers s)[w := (workers s ! w)\<lparr>pc := Exited\<rparr>]\<rparr>"
  | (Take) w t ts where "ev = Worker w" "w < length (workers s)" "pc (workers s ! w) = Checking"
      "pending_tasks s = t # ts"
      "step lib ev s = s\<lparr>pending_tasks := ts,
         queue_log := queue_log s @ [Task_dequeued w t],
         workers := (workers s)[w := (workers s ! w)\<lparr>pc := Processing t\<rparr>]\<rparr>"
  | (Sleep) w where "ev = Worker w" "w < length (workers s)" "pc (workers s ! w) = Checking"
      "\<not> shutdown_requested s" "pending_tasks s = []"
      "step lib ev s = s\<lparr>workers := (workers s)[w := (workers s ! w)\<lparr>pc := Asleep\<rparr>]\<rparr>"
  | (Process) w t where "ev = Worker w" "w < length (workers s)"
      "pc (workers s ! w) = Processing t"
      "step lib ev s = s\<lparr>workers := (workers s)[w := (workers s ! w)
         \<lparr>pc := Finished t (snd (extracted_text lib (ocr_engine (workers s ! w)) t)),
          ocr_engine := fst (extracted_text lib (ocr_engine (workers s ! w)) t)\<rparr>]\<rparr>"
  | (Deliver) w t res where "ev = Worker w" "w < length (workers s)"
      "pc (workers s ! w) = Finished t res"
      "step lib ev s = s\<lparr>promises := deliver (promises s) (text_promise t) res,
         workers := (workers s)[w := (workers s ! w)\<lparr>pc := Checking\<rparr>]\<rparr>"
  | (Spurious) w where "ev = Spurious w" "w < length (workers s)" "pc (workers s ! w) = Asleep"
      "step lib ev s = s\<lparr>workers := (workers s)[w := (workers s ! w)\<lparr>pc := Checking\<rparr>]\<rparr>"
  | (Stop_flag) "ev = Stop" "main_thread s = Serving \<or> main_thread s = Stop_returned"
      "\<not> shutdown_requested s"
      "step lib ev s = s\<lparr>shutdown_requested := True, main_thread := Stop_notifying\<rparr>"
  | (Stop_again) "ev = Stop" "main_thread s = Serving \<or> main_thread s = Stop_returned"
      "shutdown_requested s"
      "step lib ev s = s\<lparr>main_thread := Stop_returned\<rparr>"
  | (Notify_all) "ev = Stop" "main_thread s = Stop_notifying"
      "step lib ev s = s\<lparr>workers := notify_all (workers s), main_thread := Stop_joining 0\<rparr>"
  | (Join) i where "ev = Stop" "main_thread s = Stop_joining i" "i < length (workers s)"
      "\<not> joined (workers s ! i)" "pc (workers s ! i) = Exited"
      "step lib ev s = s\<lparr>workers := (workers s)[i := (workers s ! i)\<lparr>joined := True\<rparr>],
         main_thread := Stop_joining (Suc i)\<rparr>"
  | (Skip_join) i where "ev = Stop" "main_thread s = Stop_joining i" "i < length (workers s)"
      "joined (workers s ! i)"
      "step lib ev s = s\<lparr>main_thread := Stop_joining (Suc i)\<rparr>"
  | (Join_done) i where "ev = Stop" "main_thread s = Stop_joining i" "length (workers s) \<le> i"
      "step lib ev s = s\<lparr>main_thread := Stop_returned\<rparr>"
  | (Idle) "step lib ev s = s"
proof (cases ev)
  case (Tick d)
  show ?thesis by (rule that(1)[OF Tick]) (simp add: Tick step_def)
next
  case (Receive ctx req)
  show ?thesis by (rule that(2)[OF Receive]) (simp add: Receive step_def ProcessImage_begin_def)
next
  case (Handler h k)
  show ?thesis
  proof (cases "h < length (handlers s)")
    case True
    show ?thesis
    proof (cases "handlers s ! h")
      case (Created t)
      show ?thesis
        by (rule that(3)[OF Handler True Created])
           (simp add: Handler True Created step_def ProcessImage_step_def submitTask_locked_def)
    next
      case (Notifying t)
      show ?thesis
        by (rule that(4)[OF Handler True Notifying])
           (simp add: Handler True Notifying step_def ProcessImage_step_def)
    next
      case (Calling_wait t)
      show ?thesis
        by (rule that(5)[OF Handler True Calling_wait])
           (simp add: Handler True Calling_wait step_def ProcessImage_step_def)
    next
      case (Waiting t d)
      show ?thesis
      proof (cases "promises s (text_promise t)")
        case None
        show ?thesis
        proof (cases "d \<le> clock s")
          case le: True
          show ?thesis
            by (rule that(7)[OF Handler True Waiting None le])
               (simp add: Handler True Waiting None le step_def ProcessImage_step_def)
        next
          case gt: False
          show ?thesis
            by (rule that(21))
               (simp add: Handler True Waiting None gt step_def ProcessImage_step_def)
        qed
      next
        case (Some v)
        show ?thesis
          by (rule that(6)[OF Handler True Waiting Some])
             (simp add: Handler True Waiting Some step_def ProcessImage_step_def)
      qed
    next
      case (Responded r)
      show ?thesis
        by (rule that(21)) (simp add: Handler True Responded step_def ProcessImage_step_def)
    qed
  next
    case False
    show ?thesis by (rule that(21)) (simp add: Handler False step_def)
  qed
next
  case (Worker w)
  show ?thesis
  proof (cases "w < length (workers s)")
    case True
    show ?thesis
    proof (cases "pc (workers s ! w)")
      case Starting
      show ?thesis
        by (rule that(8)[OF Worker True Starting])
           (simp add: Worker True Starting step_def processTasks_step_def Let_def split: prod.splits)
    next
      case Checking
      show ?thesis
      proof (cases "pending_tasks s")
        case Nil
        show ?thesis
        proof (cases "shutdown_requested s")
          case sd: True
          show ?thesis
            by (rule that(9)[OF Worker True Checking sd Nil])
               (simp add: Worker True Checking sd Nil step_def processTasks_step_def Let_def)
        next
          case sd: False
          show ?thesis
            by (rule that(11)[OF Worker True Checking sd Nil])
               (simp add: Worker True Checking sd Nil step_def processTasks_step_def Let_def)
        qed
      next
        case (Cons t ts)
        show ?thesis
          by (rule that(10)[OF Worker True Checking Cons])
             (simp add: Worker True Checking Cons step_def processTasks_step_def Let_def)
      qed
    next
      case Asleep
      show ?thesis
        by (rule that(21)) (simp add: Worker True Asleep step_def processTasks_step_def Let_def)
    next
      case (Processing t)
      show ?thesis
        by (rule that(12)[OF Worker True Processing])
           (simp add: Worker True Processing step_def processTasks_step_def Let_def
              split: prod.splits)
    next
      case (Finished t res)
      show ?thesis
        by (rule that(13)[OF Worker True Finished])
           (simp add: Worker True Finished step_def processTasks_step_def Let_def)
    next
      case Exited
      show ?thesis
        by (rule that(21)) (simp add: Worker True Exited step_def processTasks_step_def Let_def)
    qed
  next
    case False
    show ?thesis by (rule that(21)) (simp add: Worker False step_def)
  qed
next
  case (Spurious w)
  show ?thesis
  proof (cases "w < length (workers s)")
    case True
    show ?thesis
    proof (cases "pc (workers s ! w) = Asleep")
      case a: True
      show ?thesis
        by (rule that(14)[OF Spurious True a])
           (simp add: Spurious True a step_def spurious_wakeup_def wake_def)
    next
      case a: False
      show ?thesis
        by (rule that(21)) (simp add: Spurious True a step_def spurious_wakeup_def wake_def)
    qed
  next
    case False
    show ?thesis by (rule that(21)) (simp add: Spurious False step_def spurious_wakeup_def)
  qed
next
  case Stop
  have call: "main_thread s = Serving \<or> main_thread s = Stop_returned \<Longrightarrow> thesis"
  proof -
    assume m: "main_thread s = Serving \<or> main_thread s = Stop_returned"
    then have eq: "step lib ev s = stopProcessing_locked s"
      by (auto simp add: Stop step_def stopProcessing_step_def)
    show thesis
    proof (cases "shutdown_requested s")
      case True
      show ?thesis
        by (rule that(16)[OF Stop m True]) (simp add: eq True stopProcessing_locked_def)
    next
      case False
      show ?thesis
        by (rule that(15)[OF Stop m False]) (simp add: eq False stopProcessing_locked_def)
    qed
  qed
  show ?thesis
  proof (cases "main_thread s")
    case Serving
    then show ?thesis by (simp add: call)
  next
    case Stop_notifying
    show ?thesis
      by (rule that(17)[OF Stop Stop_notifying])
         (simp add: Stop Stop_notifying step_def stopProcessing_step_def)
  next
    case (Stop_joining i)
    show ?thesis
    proof (cases "i < length (workers s)")
      case True
      show ?thesis
      proof (cases "joined (workers s ! i)")
        case j: True
        show ?thesis
          by (rule that(19)[OF Stop Stop_joining True j])
             (simp add: Stop Stop_joining True j step_def stopProcessing_step_def)
      next
        case j: False
        show ?thesis
        proof (cases "pc (workers s ! i) = Exited")
          case e: True
          show ?thesis
            by (rule that(18)[OF Stop Stop_joining True j e])
               (simp add: Stop Stop_joining True j e step_def stopProcessing_step_def)
        next
          case e: False
          show ?thesis
            by (rule that(21))
               (simp add: Stop Stop_joining True j e step_def stopProcessing_step_def)
        qed
      qed
    next
      case False
      then have ge: "length (workers s) \<le> i" by simp
      show ?thesis
        by (rule that(20)[OF Stop Stop_joining ge])
           (simp add: Stop Stop_joining False step_def stopProcessing_step_def)
    qed
  next
    case Stop_returned
    then show ?thesis by (simp add: call)
  qed
qed

section \<open>Invariants of every run\<close>

lemma fifo_ok_step: "fifo_ok s \<Longrightarrow> fifo_ok (step lib ev s)"
  by (cases rule: step_cases[of ev lib s])
     (simp_all add: fifo_ok_def submitted_append dequeued_append)

lemma ids_ok_step:
  assumes "ids_ok s"
  shows "ids_ok (step lib ev s)"
proof (cases rule: step_cases[of ev lib s])
  case (Receive ctx req)
  with assms show ?thesis
    by (auto simp add: ids_ok_def nth_append new_task_def)
next
  case (Submit h k t)
  with assms show ?thesis
    by (auto simp add: ids_ok_def submitted_append nth_list_update)
next
  case (Notify h k t)
  with assms show ?thesis
    by (auto simp add: ids_ok_def nth_list_update)
next
  case (Call_wait h k t)
  with assms show ?thesis
    by (auto simp add: ids_ok_def nth_list_update)
next
  case (Complete h k t d v)
  with assms show ?thesis
    by (auto simp add: ids_ok_def nth_list_update)
next
  case (Timeout h k t d)
  with assms show ?thesis
    by (auto simp add: ids_ok_def nth_list_update)
qed (use assms in \<open>simp_all add: ids_ok_def submitted_append\<close>)

lemma time_ok_step:
  assumes "time_ok s"
  shows "time_ok (step lib ev s)"
proof (cases rule: step_cases[of ev lib s])
  case (Tick d)
  with assms show ?thesis by (fastforce simp add: time_ok_def)
next
  case (Receive ctx req)
  with assms show ?thesis by (auto simp add: time_ok_def new_task_def nth_append)
next
  case (Submit h k t)
  with assms show ?thesis
    by (auto simp add: time_ok_def nth_list_update)
next
  case (Notify h k t)
  with assms show ?thesis
    by (auto simp add: time_ok_def nth_list_update)
next
  case (Call_wait h k t)
  with assms show ?thesis
    by (auto simp add: time_ok_def nth_list_update)
next
  case (Complete h k t d v)
  with assms show ?thesis
    by (auto simp add: time_ok_def nth_list_update)
next
  case (Timeout h k t d)
  with assms show ?thesis
    by (auto simp add: time_ok_def nth_list_update)
qed (use assms in \<open>simp_all add: time_ok_def\<close>)

lemma pc_wake: "pc (wake wk) = (if pc wk = Asleep then Checking else pc wk)"
  by (simp add: wake_def)

lemma joined_wake [simp]: "joined (wake wk) = joined wk"
  by (simp add: wake_def)

lemma ocr_engine_wake [simp]: "ocr_engine (wake wk) = ocr_engine wk"
  by (simp add: wake_def)

lemma current_task_wake [simp]: "current_task (pc (wake wk)) = current_task (pc wk)"
  by (simp add: wake_def)

lemma length_wake_first [simp]: "length (wake_first ws) = length ws"
  by (induction ws) simp_all

lemma wake_first_nth:
  "i < length ws \<Longrightarrow> wake_first ws ! i = ws ! i \<or> wake_first ws ! i = wake (ws ! i)"
proof (induction ws arbitrary: i)
  case Nil
  then show ?case by simp
next
  case (Cons wk ws)
  show ?case
  proof (cases i)
    case 0
    then show ?thesis by (simp add: wake_def)
  next
    case (Suc n)
    with Cons show ?thesis by auto
  qed
qed

lemma length_notify_one [simp]: "length (notify_one k ws) = length ws"
  by (simp add: notify_one_def)

lemma notify_one_nth:
  "i < length ws \<Longrightarrow> notify_one k ws ! i = ws ! i \<or> notify_one k ws ! i = wake (ws ! i)"
  by (auto simp add: notify_one_def nth_list_update dest: wake_first_nth)

lemma length_notify_all [simp]: "length (notify_all ws) = length ws"
  by (simp add: notify_all_def)

lemma notify_all_nth [simp]: "i < length ws \<Longrightarrow> notify_all ws ! i = wake (ws ! i)"
  by (simp add: notify_all_def)

lemma notify_one_pc:
  "i < length ws \<Longrightarrow>
   pc (notify_one k ws ! i) = pc (ws ! i) \<or> (pc (ws ! i) = Asleep \<and> pc (notify_one k ws ! i) = Checking)"
  using notify_one_nth[of i ws k] by (auto simp add: pc_wake split: if_splits)

lemma notify_one_joined [simp]: "i < length ws \<Longrightarrow> joined (notify_one k ws ! i) = joined (ws ! i)"
  using notify_one_nth[of i ws k] by auto

lemma notify_one_engine [simp]:
  "i < length ws \<Longrightarrow> ocr_engine (notify_one k ws ! i) = ocr_engine (ws ! i)"
  using notify_one_nth[of i ws k] by auto

lemma notify_one_current_task [simp]:
  "i < length ws \<Longrightarrow> current_task (pc (notify_one k ws ! i)) = current_task (pc (ws ! i))"
  using notify_one_nth[of i ws k] by auto

lemma shutdown_ok_step:
  assumes "shutdown_ok s"
  shows "shutdown_ok (step lib ev s)"
proof (cases rule: step_cases[of ev lib s])
  case (Notify h k t)
  have "\<And>i. i < length (workers s) \<Longrightarrow>
      (pc (notify_one k (workers s) ! i) = Exited \<longleftrightarrow> pc (workers s ! i) = Exited) \<and>
      (pc (workers s ! i) \<noteq> Asleep \<longrightarrow> pc (notify_one k (workers s) ! i) \<noteq> Asleep)"
    using notify_one_pc[of _ "workers s" k] by fastforce
  with assms Notify show ?thesis
    by (auto simp add: shutdown_ok_def split: main_pc.splits)
next
  case (Init w)
  with assms show ?thesis
    by (auto simp add: shutdown_ok_def nth_list_update split: main_pc.splits)
next
  case (Exit w)
  with assms show ?thesis
    by (auto simp add: shutdown_ok_def nth_list_update split: main_pc.splits)
next
  case (Take w t ts)
  with assms show ?thesis
    by (auto simp add: shutdown_ok_def nth_list_update split: main_pc.splits)
next
  case (Sleep w)
  with assms show ?thesis
    by (auto simp add: shutdown_ok_def nth_list_update split: main_pc.splits)
next
  case (Process w t)
  with assms show ?thesis
    by (auto simp add: shutdown_ok_def nth_list_update split: main_pc.splits)
next
  case (Deliver w t res)
  with assms show ?thesis
    by (auto simp add: shutdown_ok_def nth_list_update split: main_pc.splits)
next
  case (Spurious w)
  with assms show ?thesis
    by (auto simp add: shutdown_ok_def nth_list_update split: main_pc.splits)
next
  case Stop_flag
  with assms show ?thesis
    by (auto simp add: shutdown_ok_def split: main_pc.splits)
next
  case Stop_again
  with assms show ?thesis
    by (auto simp add: shutdown_ok_def split: main_pc.splits)
next
  case Notify_all
  with assms show ?thesis
    by (auto simp add: shutdown_ok_def pc_wake split: main_pc.splits)
next
  case (Join i)
  with assms show ?thesis
    by (auto simp add: shutdown_ok_def nth_list_update less_Suc_eq split: main_pc.splits)
next
  case (Skip_join i)
  with assms show ?thesis
    by (auto simp add: shutdown_ok_def less_Suc_eq split: main_pc.splits)
next
  case (Join_done i)
  with assms show ?thesis
    by (auto simp add: shutdown_ok_def split: main_pc.splits)
qed (use assms in \<open>auto simp add: shutdown_ok_def split: main_pc.splits\<close>)

lemma dequeued_ids_distinct:
  assumes "fifo_ok s" "ids_ok s"
  shows "distinct (map (text_promise \<circ> snd) (dequeued (queue_log s)) @ map text_promise (pending_tasks s))"
proof -
  have "distinct (map text_promise (map snd (dequeued (queue_log s)) @ pending_tasks s))"
    using assms by (simp add: fifo_ok_def ids_ok_def)
  then show ?thesis by simp
qed

lemma holding_ok_step:
  assumes h: "holding_ok s" and f: "fifo_ok s" and i: "ids_ok s"
  shows "holding_ok (step lib ev s)"
proof (cases rule: step_cases[of ev lib s])
  case (Submit h k t)
  with h show ?thesis by (simp add: holding_ok_def dequeued_append)
next
  case (Notify h k t)
  with h show ?thesis by (simp add: holding_ok_def)
next
  case (Init w)
  with h show ?thesis by (auto simp add: holding_ok_def nth_list_update)
next
  case (Exit w)
  with h show ?thesis by (auto simp add: holding_ok_def nth_list_update)
next
  case (Take w t ts)
  have "text_promise t \<notin> set (map (text_promise \<circ> snd) (dequeued (queue_log s)))"
    using dequeued_ids_distinct[OF f i] Take(4) by auto
  then have "promises s (text_promise t) = None"
    using h by (cases "promises s (text_promise t)") (auto simp add: holding_ok_def)
  with h Take show ?thesis
    by (auto simp add: holding_ok_def nth_list_update dequeued_append)
next
  case (Sleep w)
  with h show ?thesis by (auto simp add: holding_ok_def nth_list_update)
next
  case (Process w t)
  with h show ?thesis by (auto simp add: holding_ok_def nth_list_update)
next
  case (Deliver w t res)
  have wt: "(w, t) \<in> set (dequeued (queue_log s))"
    using h Deliver by (simp add: holding_ok_def)
  have inj: "inj_on (text_promise \<circ> snd) (set (dequeued (queue_log s)))"
    using dequeued_ids_distinct[OF f i] by (simp add: distinct_map)
  have other: "text_promise t' \<noteq> text_promise t"
    if "w' < length (workers s)" "w' \<noteq> w" "current_task (pc (workers s ! w')) = Some t'" for w' t'
  proof
    assume eq: "text_promise t' = text_promise t"
    have "(w', t') \<in> set (dequeued (queue_log s))"
      using h that by (simp add: holding_ok_def)
    moreover have "(text_promise \<circ> snd) (w', t') = (text_promise \<circ> snd) (w, t)"
      using eq by simp
    ultimately have "(w', t') = (w, t)" using wt inj by (blast dest: inj_onD)
    with that show False by simp
  qed
  have c1: "(w', t') \<in> set (dequeued (queue_log (step lib ev s))) \<and>
          promises (step lib ev s) (text_promise t') = None"
    if a: "w' < length (workers (step lib ev s))"
      "current_task (pc (workers (step lib ev s) ! w')) = Some t'" for w' t'
  proof -
    from a have "w' \<noteq> w" using Deliver by auto
    with a Deliver have b: "w' < length (workers s)" "current_task (pc (workers s ! w')) = Some t'"
      by simp_all
    then have "(w', t') \<in> set (dequeued (queue_log s))" "promises s (text_promise t') = None"
      using h by (simp_all add: holding_ok_def)
    with other[OF b(1) \<open>w' \<noteq> w\<close> b(2)] Deliver show ?thesis
      by (simp add: deliver_eq)
  qed
  have c2: "p \<in> set (map (text_promise \<circ> snd) (dequeued (queue_log (step lib ev s))))"
    if "promises (step lib ev s) p = Some v" for p v
  proof -
    from that Deliver have "p = text_promise t \<or> promises s p = Some v"
      by (auto simp add: deliver_eq split: if_splits)
    moreover have "text_promise t \<in> set (map (text_promise \<circ> snd) (dequeued (queue_log s)))"
      using wt by force
    ultimately have "p \<in> set (map (text_promise \<circ> snd) (dequeued (queue_log s)))"
      using h by (auto simp add: holding_ok_def)
    with Deliver show ?thesis by simp
  qed
  show ?thesis
    unfolding holding_ok_def using c1 c2 by blast
next
  case (Spurious w)
  with h show ?thesis by (auto simp add: holding_ok_def nth_list_update)
next
  case Notify_all
  with h show ?thesis by (simp add: holding_ok_def)
next
  case (Join i)
  with h show ?thesis by (auto simp add: holding_ok_def nth_list_update)
qed (use h in \<open>simp_all add: holding_ok_def\<close>)

lemma invariant_TaskProcessor: "invariant (TaskProcessor lib n)"
  by (simp add: invariant_def fifo_ok_def ids_ok_def time_ok_def shutdown_ok_def holding_ok_def
      TaskProcessor_def)

lemma invariant_step: "invariant s \<Longrightarrow> invariant (step lib ev s)"
  by (simp add: invariant_def fifo_ok_step ids_ok_step time_ok_step shutdown_ok_step
      holding_ok_step)

lemma invariant_run: "invariant s \<Longrightarrow> invariant (run lib evs s)"
  by (induction evs arbitrary: s) (simp_all add: invariant_step)

lemma invariant_reachable: "invariant (run lib evs (TaskProcessor lib n))"
  by (simp add: invariant_run invariant_TaskProcessor)

lemma run_append: "run lib (evs @ evs') s = run lib evs' (run lib evs s)"
  by (induction evs arbitrary: s) simp_all

lemma length_workers_step [simp]: "length (workers (step lib ev s)) = length (workers s)"
  by (cases rule: step_cases[of ev lib s]) simp_all

lemma length_workers_run [simp]: "length (workers (run lib evs s)) = length (workers s)"
  by (induction evs arbitrary: s) simp_all

lemma length_workers_TaskProcessor [simp]: "length (workers (TaskProcessor lib n)) = n"
  by (simp add: TaskProcessor_def)

section \<open>The task queue (C1)\<close>

text \<open>The definitions unfolded when the model is evaluated on a concrete schedule.\<close>

lemmas eval_defs = step_def ProcessImage_begin_def ProcessImage_step_def processTasks_step_def
  spurious_wakeup_def stopProcessing_step_def stopProcessing_locked_def submitTask_locked_def
  TaskProcessor_def new_task_def notify_one_def notify_all_def wake_def deliver_eq
  extracted_text_def try_block_def demo_lib_def demo_request_def extraction_request_def
  client_context_def completed_response_def timeout_response_def default_response_def
  duration_cast_milliseconds_def seconds_def Let_def demo_task_def demo_submitted_def
  demo_taken_def demo_processing_def demo_abandoned_def demo_task_with_def demo_taken_with_def
  demo_two_requests_def demo_two_asleep_def demo_shutdown_def demo_completed_with_def
  demo_arrival_def demo_fulfilled_def demo_lib_raising_def

text \<open>
  C1. For every schedule of the threads, the tasks dequeued so far followed by the tasks
  still pending are the tasks submitted, in submission order. Every submitted task is a
  different task, so no task is dequeued twice and none is lost; the dequeue order is the
  submission order; and the task a worker holds is one that this worker dequeued.
\<close>

theorem queue_serves_in_submission_order:
  "(let S = run lib evs (TaskProcessor lib n)
    in map snd (dequeued (queue_log S)) @ pending_tasks S = submitted (queue_log S)
     \<and> distinct (submitted (queue_log S))
     \<and> distinct (map snd (dequeued (queue_log S)))
     \<and> map snd (dequeued (queue_log S))
         = take (length (dequeued (queue_log S))) (submitted (queue_log S))
     \<and> (w < n \<and> current_task (pc (workers S ! w)) = Some t \<longrightarrow>
          (w, t) \<in> set (dequeued (queue_log S))))"
proof -
  define S where "S = run lib evs (TaskProcessor lib n)"
  have inv: "invariant S" unfolding S_def by (rule invariant_reachable)
  then have eq: "map snd (dequeued (queue_log S)) @ pending_tasks S = submitted (queue_log S)"
    by (simp add: invariant_def fifo_ok_def)
  from inv have "distinct (map text_promise (submitted (queue_log S)))"
    by (simp add: invariant_def ids_ok_def)
  then have d: "distinct (submitted (queue_log S))"
    by (simp add: distinct_map)
  then have d': "distinct (map snd (dequeued (queue_log S)))"
    using eq distinct_append[of "map snd (dequeued (queue_log S))" "pending_tasks S"] by simp
  have "take (length (dequeued (queue_log S))) (submitted (queue_log S))
      = take (length (map snd (dequeued (queue_log S))))
          (map snd (dequeued (queue_log S)) @ pending_tasks S)"
    using eq by simp
  then have t: "map snd (dequeued (queue_log S))
      = take (length (dequeued (queue_log S))) (submitted (queue_log S))"
    by simp
  have len: "length (workers S) = n" by (simp add: S_def)
  have h: "w < n \<and> current_task (pc (workers S ! w)) = Some t \<longrightarrow>
          (w, t) \<in> set (dequeued (queue_log S))"
    using inv len by (simp add: invariant_def holding_ok_def)
  from eq d d' t h show ?thesis
    unfolding Let_def S_def by blast
qed

theorem queue_serves_in_submission_order_witness:
  "submitted (queue_log (run demo_lib (demo_two_requests [1, 2] [0, 0]) (TaskProcessor demo_lib 1)))
     = [demo_task_with [1, 2], (demo_task_with [0, 0])\<lparr>text_promise := 1\<rparr>]
   \<and> dequeued (queue_log (run demo_lib (demo_two_requests [1, 2] [0, 0]) (TaskProcessor demo_lib 1)))
     = [(0, demo_task_with [1, 2])]
   \<and> pending_tasks (run demo_lib (demo_two_requests [1, 2] [0, 0]) (TaskProcessor demo_lib 1))
     = [(demo_task_with [0, 0])\<lparr>text_promise := 1\<rparr>]
   \<and> (0::nat) < 1
   \<and> current_task (pc (workers (run demo_lib (demo_two_requests [1, 2] [0, 0])
        (TaskProcessor demo_lib 1)) ! 0)) = Some (demo_task_with [1, 2])
   \<and> dequeued (queue_log (run demo_lib (demo_two_requests [1, 2] [0, 0]
          @ [Worker 0, Worker 0, Worker 0]) (TaskProcessor demo_lib 1)))
     = [(0, demo_task_with [1, 2]), (0, (demo_task_with [0, 0])\<lparr>text_promise := 1\<rparr>)]"
  using queue_serves_in_submission_order
      [where lib = demo_lib and evs = "demo_two_requests [1, 2] [0, 0]" and n = 1 and w = 0
         and t = "demo_task_with [1, 2]"]
  by (simp add: eval_defs)

section \<open>The result channel (C2)\<close>

lemma promises_step_mono:
  "promises s p = Some v \<Longrightarrow> promises (step lib ev s) p = Some v"
  by (cases rule: step_cases[of ev lib s]) (auto simp add: deliver_eq)

lemma promises_run_mono:
  "promises s p = Some v \<Longrightarrow> promises (run lib evs s) p = Some v"
  by (induction evs arbitrary: s) (simp_all add: promises_step_mono)

lemma deliver_step:
  assumes "w < length (workers s)" "pc (workers s ! w) = Finished t r"
  shows "step lib (Worker w) s =
    s\<lparr>promises := deliver (promises s) (text_promise t) r,
      workers := (workers s)[w := (workers s ! w)\<lparr>pc := Checking\<rparr>]\<rparr>"
  using assms by (simp add: step_def processTasks_step_def Let_def)

lemma held_promise_empty:
  assumes "invariant s" "w < length (workers s)" "current_task (pc (workers s ! w)) = Some t"
  shows "promises s (text_promise t) = None"
  using assms by (simp add: invariant_def holding_ok_def)

text \<open>
  C2. In every run, a worker that is about to write its result finds the promise empty,
  the write stores the result and the worker goes on with its loop; this does not depend
  on the state of the handler, so it holds after the handler has timed out. A value once
  stored is never changed by any later step. A second \<^verbatim>\<open>set_value\<close> on the same promise
  is rejected with \<^verbatim>\<open>promise_already_satisfied\<close>, and the worker's \<^verbatim>\<open>catch\<close> turns it
  into a no-op.
\<close>

theorem result_channel_written_at_most_once:
  "(w < n \<and> pc (workers (run lib evs (TaskProcessor lib n)) ! w) = Finished t r \<longrightarrow>
      promises (run lib evs (TaskProcessor lib n)) (text_promise t) = None \<and>
      promises (step lib (Worker w) (run lib evs (TaskProcessor lib n))) (text_promise t) = Some r \<and>
      pc (workers (step lib (Worker w) (run lib evs (TaskProcessor lib n))) ! w) = Checking \<and>
      handlers (step lib (Worker w) (run lib evs (TaskProcessor lib n)))
        = handlers (run lib evs (TaskProcessor lib n)))
   \<and> (promises s p = Some v \<longrightarrow> promises (run lib evs' s) p = Some v)
   \<and> (store p = Some v \<longrightarrow>
        set_value store p v' = Inl promise_already_satisfied \<and> deliver store p v' = store)"
proof -
  let ?s = "run lib evs (TaskProcessor lib n)"
  have a: "promises ?s (text_promise t) = None \<and>
      promises (step lib (Worker w) ?s) (text_promise t) = Some r \<and>
      pc (workers (step lib (Worker w) ?s) ! w) = Checking \<and>
      handlers (step lib (Worker w) ?s) = handlers ?s"
    if w: "w < n" and f: "pc (workers ?s ! w) = Finished t r"
  proof -
    have len: "w < length (workers ?s)" using w by simp
    have e: "promises ?s (text_promise t) = None"
      using held_promise_empty[OF invariant_reachable len] f by simp
    show ?thesis using e w by (simp add: deliver_step[OF len f] deliver_eq)
  qed
  have b: "promises s p = Some v \<longrightarrow> promises (run lib evs' s) p = Some v"
    by (simp add: promises_run_mono)
  have c: "store p = Some v \<longrightarrow>
        set_value store p v' = Inl promise_already_satisfied \<and> deliver store p v' = store"
    by (simp add: set_value_def deliver_def)
  from a b c show ?thesis by blast
qed

theorem result_channel_written_at_most_once_witness:
  "(0::nat) < 1
   \<and> pc (workers (run demo_lib demo_abandoned (TaskProcessor demo_lib 1)) ! 0)
       = Finished demo_task ''xx''
   \<and> handlers (run demo_lib demo_abandoned (TaskProcessor demo_lib 1)) ! 0
       = Responded timeout_response
   \<and> promises (run demo_lib demo_abandoned (TaskProcessor demo_lib 1)) 0 = None
   \<and> promises (run demo_lib (demo_abandoned @ [Worker 0]) (TaskProcessor demo_lib 1)) 0
       = Some ''xx''
   \<and> pc (workers (run demo_lib (demo_abandoned @ [Worker 0]) (TaskProcessor demo_lib 1)) ! 0)
       = Checking
   \<and> promises (run demo_lib (demo_abandoned @ [Worker 0, Worker 0, Stop, Worker 0])
         (TaskProcessor demo_lib 1)) 0 = Some ''xx''
   \<and> set_value ((\<lambda>p. None)(0 := Some ''xx'')) 0 ''yy'' = Inl promise_already_satisfied
   \<and> deliver ((\<lambda>p. None)(0 := Some ''xx'')) 0 ''yy'' 0 = Some ''xx''"
  using result_channel_written_at_most_once
    [where w = 0 and n = 1 and lib = demo_lib and evs = demo_abandoned and t = demo_task
       and r = "''xx''"
       and s = "run demo_lib (demo_abandoned @ [Worker 0]) (TaskProcessor demo_lib 1)"
       and p = 0 and v = "''xx''" and evs' = "[Worker 0, Stop, Worker 0]"
       and store = "(\<lambda>p. None)(0 := Some ''xx'')" and v' = "''yy''"]
  by (simp add: eval_defs set_value_def)

section \<open>The timeout of the handler (C3)\<close>

lemma length_handlers_step: "length (handlers s) \<le> length (handlers (step lib ev s))"
  by (cases rule: step_cases[of ev lib s]) simp_all

lemma length_handlers_run: "length (handlers s) \<le> length (handlers (run lib evs s))"
proof (induction evs arbitrary: s)
  case Nil
  show ?case by simp
next
  case (Cons ev evs)
  have "length (handlers s) \<le> length (handlers (step lib ev s))"
    by (rule length_handlers_step)
  also have "\<dots> \<le> length (handlers (run lib evs (step lib ev s)))"
    by (rule Cons.IH)
  finally show ?case by simp
qed

lemma responded_step:
  "h < length (handlers s) \<Longrightarrow> handlers s ! h = Responded r \<Longrightarrow>
   h < length (handlers (step lib ev s)) \<and> handlers (step lib ev s) ! h = Responded r"
  by (cases rule: step_cases[of ev lib s]) (auto simp add: nth_append nth_list_update)

lemma responded_run:
  "h < length (handlers s) \<Longrightarrow> handlers s ! h = Responded r \<Longrightarrow>
   h < length (handlers (run lib evs s)) \<and> handlers (run lib evs s) ! h = Responded r"
  by (induction evs arbitrary: s) (simp_all add: responded_step)

lemma clock_step: "clock s \<le> clock (step lib ev s)"
  by (cases rule: step_cases[of ev lib s]) simp_all

lemma clock_run: "clock s \<le> clock (run lib evs s)"
proof (induction evs arbitrary: s)
  case Nil
  show ?case by simp
next
  case (Cons ev evs)
  have "clock s \<le> clock (step lib ev s)" by (rule clock_step)
  also have "\<dots> \<le> clock (run lib evs (step lib ev s))" by (rule Cons.IH)
  finally show ?case by simp
qed

lemma timeout_step:
  assumes "h < length (handlers s)" "handlers s ! h = Waiting t d"
    "promises s (text_promise t) = None" "d \<le> clock s"
  shows "step lib (Handler h k) s = s\<lparr>handlers := (handlers s)[h := Responded timeout_response]\<rparr>"
  using assms by (simp add: step_def ProcessImage_step_def)

lemma complete_step:
  assumes "h < length (handlers s)" "handlers s ! h = Waiting t d"
    "promises s (text_promise t) = Some v"
  shows "step lib (Handler h k) s =
    s\<lparr>handlers := (handlers s)[h := Responded (completed_response v (clock s) t)]\<rparr>"
  using assms by (simp add: step_def ProcessImage_step_def)

lemma process_step:
  assumes "w < length (workers s)" "pc (workers s ! w) = Processing t"
  shows "step lib (Worker w) s =
    s\<lparr>workers := (workers s)[w := (workers s ! w)
         \<lparr>pc := Finished t (snd (extracted_text lib (ocr_engine (workers s ! w)) t)),
          ocr_engine := fst (extracted_text lib (ocr_engine (workers s ! w)) t)\<rparr>]\<rparr>"
  using assms by (simp add: step_def processTasks_step_def Let_def split: prod.splits)

lemma invariant_later:
  "invariant (run lib evs' (step lib ev (run lib evs (TaskProcessor lib n))))"
  by (simp add: invariant_run invariant_step invariant_reachable)

text \<open>
  C3, as the code has it. In every run: when the handler's wait ends after its deadline
  and the result is still not delivered at that moment, the handler returns the response
  with \<open>ok = False\<close> and the message "Image processing timeout"; this step changes neither the queue nor the workers nor any
  promise, so the task is neither cancelled nor removed. At every later moment a worker
  that is processing the task finishes processing it, and a worker that has finished
  writes its result to the task's promise, which succeeds, while the response already
  returned stays as it is.
\<close>

theorem timeout_response_and_no_cancellation:
  "(let S = run lib evs (TaskProcessor lib n);
        S1 = step lib (Handler h k) S;
        S2 = run lib evs' S1
    in h < length (handlers S) \<and> handlers S ! h = Waiting t d \<and>
       promises S (text_promise t) = None \<and> d \<le> clock S \<longrightarrow>
         handlers S1 ! h = Responded timeout_response \<and>
         ok timeout_response = False \<and>
         message timeout_response = ''Image processing timeout'' \<and>
         pending_tasks S1 = pending_tasks S \<and> workers S1 = workers S \<and>
         promises S1 = promises S \<and> queue_log S1 = queue_log S \<and>
         (w < n \<and> pc (workers S2 ! w) = Processing t \<longrightarrow>
            pc (workers (step lib (Worker w) S2) ! w)
              = Finished t (snd (extracted_text lib (ocr_engine (workers S2 ! w)) t))) \<and>
         (w < n \<and> pc (workers S2 ! w) = Finished t r \<longrightarrow>
            promises (step lib (Worker w) S2) (text_promise t) = Some r \<and>
            pc (workers (step lib (Worker w) S2) ! w) = Checking \<and>
            handlers (step lib (Worker w) S2) ! h = Responded timeout_response))"
proof -
  define S where "S = run lib evs (TaskProcessor lib n)"
  define S1 where "S1 = step lib (Handler h k) S"
  define S2 where "S2 = run lib evs' S1"
  have goal: "handlers S1 ! h = Responded timeout_response \<and>
         ok timeout_response = False \<and>
         message timeout_response = ''Image processing timeout'' \<and>
         pending_tasks S1 = pending_tasks S \<and> workers S1 = workers S \<and>
         promises S1 = promises S \<and> queue_log S1 = queue_log S \<and>
         (w < n \<and> pc (workers S2 ! w) = Processing t \<longrightarrow>
            pc (workers (step lib (Worker w) S2) ! w)
              = Finished t (snd (extracted_text lib (ocr_engine (workers S2 ! w)) t))) \<and>
         (w < n \<and> pc (workers S2 ! w) = Finished t r \<longrightarrow>
            promises (step lib (Worker w) S2) (text_promise t) = Some r \<and>
            pc (workers (step lib (Worker w) S2) ! w) = Checking \<and>
            handlers (step lib (Worker w) S2) ! h = Responded timeout_response)"
    if a: "h < length (handlers S)" "handlers S ! h = Waiting t d"
      "promises S (text_promise t) = None" "d \<le> clock S"
  proof -
    have eq: "S1 = S\<lparr>handlers := (handlers S)[h := Responded timeout_response]\<rparr>"
      unfolding S1_def by (rule timeout_step[OF a])
    have r1: "h < length (handlers S1)" "handlers S1 ! h = Responded timeout_response"
      using a(1) by (simp_all add: eq)
    have len: "length (workers S2) = n"
      by (simp add: S2_def S1_def S_def)
    have inv2: "invariant S2"
      unfolding S2_def S1_def S_def by (rule invariant_later)
    have r2: "h < length (handlers S2)" "handlers S2 ! h = Responded timeout_response"
      using responded_run[OF r1, of lib evs'] by (simp_all add: S2_def)
    have p: "pc (workers (step lib (Worker w) S2) ! w)
              = Finished t (snd (extracted_text lib (ocr_engine (workers S2 ! w)) t))"
      if "w < n" "pc (workers S2 ! w) = Processing t"
      using that len by (simp add: process_step)
    have f: "promises (step lib (Worker w) S2) (text_promise t) = Some r \<and>
            pc (workers (step lib (Worker w) S2) ! w) = Checking \<and>
            handlers (step lib (Worker w) S2) ! h = Responded timeout_response"
      if w: "w < n" "pc (workers S2 ! w) = Finished t r"
    proof -
      have wl: "w < length (workers S2)" using w len by simp
      have "promises S2 (text_promise t) = None"
        using held_promise_empty[OF inv2 wl] w by simp
      then show ?thesis
        using r2 wl by (simp add: deliver_step[OF wl w(2)] deliver_eq)
    qed
    show ?thesis
      using r1 p f by (simp add: eq timeout_response_def default_response_def)
  qed
  then show ?thesis
    unfolding Let_def S_def S1_def S2_def by blast
qed

theorem timeout_response_and_no_cancellation_witness:
  "handlers (run demo_lib (demo_taken @ [Tick 121000000000]) (TaskProcessor demo_lib 1)) ! 0
     = Waiting demo_task (seconds 120)
   \<and> promises (run demo_lib (demo_taken @ [Tick 121000000000]) (TaskProcessor demo_lib 1)) 0 = None
   \<and> seconds 120 \<le> clock (run demo_lib (demo_taken @ [Tick 121000000000]) (TaskProcessor demo_lib 1))
   \<and> handlers (run demo_lib (demo_taken @ [Tick 121000000000, Handler 0 0])
        (TaskProcessor demo_lib 1)) ! 0 = Responded timeout_response
   \<and> pending_tasks (run demo_lib (demo_taken @ [Tick 121000000000, Handler 0 0])
        (TaskProcessor demo_lib 1)) = []
   \<and> pc (workers (run demo_lib (demo_taken @ [Tick 121000000000, Handler 0 0])
        (TaskProcessor demo_lib 1)) ! 0) = Processing demo_task
   \<and> pc (workers (run demo_lib (demo_taken @ [Tick 121000000000, Handler 0 0, Worker 0])
        (TaskProcessor demo_lib 1)) ! 0) = Finished demo_task ''xx''
   \<and> pc (workers (run demo_lib demo_abandoned (TaskProcessor demo_lib 1)) ! 0)
        = Finished demo_task ''xx''
   \<and> promises (run demo_lib (demo_abandoned @ [Worker 0]) (TaskProcessor demo_lib 1)) 0
        = Some ''xx''
   \<and> handlers (run demo_lib (demo_abandoned @ [Worker 0]) (TaskProcessor demo_lib 1)) ! 0
        = Responded timeout_response"
  using timeout_response_and_no_cancellation
      [where lib = demo_lib and evs = "demo_taken @ [Tick 121000000000]" and n = 1 and h = 0
         and k = 0 and t = demo_task and d = "seconds 120" and evs' = "[]" and w = 0
         and r = "''xx''"]
    timeout_response_and_no_cancellation
      [where lib = demo_lib and evs = "demo_processing @ [Tick 121000000000]" and n = 1
         and h = 0 and k = 0 and t = demo_task and d = "seconds 120" and evs' = "[]" and w = 0
         and r = "''xx''"]
  by (simp add: eval_defs)

text \<open>
  The claim as stated fails where the result arrives after the deadline and before the
  handler's wait has ended: 121 seconds after the wait began (its deadline is 120
  seconds) nothing is delivered; then the worker writes its result, and the handler's wait
  returns \<^verbatim>\<open>ready\<close>: the response has \<open>ok = True\<close>.
\<close>

theorem late_result_is_not_a_timeout:
  "handlers (run demo_lib (demo_processing @ [Tick 121000000000]) (TaskProcessor demo_lib 1)) ! 0
     = Waiting demo_task (seconds 120)
   \<and> seconds 120 < clock (run demo_lib (demo_processing @ [Tick 121000000000])
        (TaskProcessor demo_lib 1))
   \<and> promises (run demo_lib (demo_processing @ [Tick 121000000000]) (TaskProcessor demo_lib 1)) 0
     = None
   \<and> handlers (run demo_lib (demo_processing @ [Tick 121000000000, Worker 0, Handler 0 0])
        (TaskProcessor demo_lib 1)) ! 0
     = Responded \<lparr>ok = True, text = ''xx'', message = [], processing_time_ms = 121000\<rparr>"
  by (simp add: eval_defs)

section \<open>The completed response and its processing time (C5)\<close>

lemma duration_cast_milliseconds_nonneg: "0 \<le> d \<Longrightarrow> 0 \<le> duration_cast_milliseconds d"
  by (simp add: duration_cast_milliseconds_def)

lemma duration_cast_milliseconds_mono:
  "0 \<le> a \<Longrightarrow> a \<le> b \<Longrightarrow> duration_cast_milliseconds a \<le> duration_cast_milliseconds b"
  by (simp add: duration_cast_milliseconds_def zdiv_mono1)

lemma fulfilled_step:
  assumes h: "h < length (handlers s)"
    and p: "promises s (text_promise t) = Some v"
    and st: "task_start_time t \<le> clock s"
    and q: "task_of (handlers s ! h) = Some t \<or>
       (\<exists>now. task_start_time t \<le> now \<and> now \<le> clock s \<and>
          handlers s ! h = Responded (completed_response v now t))"
  shows "h < length (handlers (step lib ev s)) \<and>
    promises (step lib ev s) (text_promise t) = Some v \<and>
    task_start_time t \<le> clock (step lib ev s) \<and>
    (task_of (handlers (step lib ev s) ! h) = Some t \<or>
       (\<exists>now. task_start_time t \<le> now \<and> now \<le> clock (step lib ev s) \<and>
          handlers (step lib ev s) ! h = Responded (completed_response v now t)))"
proof -
  have 1: "h < length (handlers (step lib ev s))"
    using h length_handlers_step[of s lib ev] by simp
  have 2: "promises (step lib ev s) (text_promise t) = Some v"
    by (rule promises_step_mono[OF p])
  have c: "clock s \<le> clock (step lib ev s)" by (rule clock_step)
  then have 3: "task_start_time t \<le> clock (step lib ev s)" using st by simp
  have 4: "task_of (handlers (step lib ev s) ! h) = Some t \<or>
       (\<exists>now. task_start_time t \<le> now \<and> now \<le> clock (step lib ev s) \<and>
          handlers (step lib ev s) ! h = Responded (completed_response v now t))"
  proof (cases rule: step_cases[of ev lib s])
    case (Tick d)
    with q show ?thesis by fastforce
  next
    case (Receive ctx req)
    with q h show ?thesis by (simp add: nth_append)
  next
    case (Submit h' k t')
    with q h show ?thesis by (cases "h' = h") auto
  next
    case (Notify h' k t')
    with q h show ?thesis by (cases "h' = h") auto
  next
    case (Call_wait h' k t')
    with q h show ?thesis by (cases "h' = h") auto
  next
    case (Complete h' k t' d v')
    show ?thesis
    proof (cases "h' = h")
      case True
      with Complete q have "t' = t" by auto
      with Complete p have "v' = v" by simp
      with Complete True \<open>t' = t\<close> h st show ?thesis by auto
    next
      case False
      with Complete q show ?thesis by simp
    qed
  next
    case (Timeout h' k t' d)
    show ?thesis
    proof (cases "h' = h")
      case True
      with Timeout q have "t' = t" by auto
      with Timeout p show ?thesis by simp
    next
      case False
      with Timeout q show ?thesis by simp
    qed
  qed (use q in \<open>simp_all\<close>)
  from 1 2 3 4 show ?thesis by blast
qed

lemma fulfilled_run:
  assumes "h < length (handlers s)"
    "promises s (text_promise t) = Some v"
    "task_start_time t \<le> clock s"
    "task_of (handlers s ! h) = Some t \<or>
       (\<exists>now. task_start_time t \<le> now \<and> now \<le> clock s \<and>
          handlers s ! h = Responded (completed_response v now t))"
  shows "task_of (handlers (run lib evs s) ! h) = Some t \<or>
       (\<exists>now. task_start_time t \<le> now \<and> now \<le> clock (run lib evs s) \<and>
          handlers (run lib evs s) ! h = Responded (completed_response v now t))"
  using assms
proof (induction evs arbitrary: s)
  case Nil
  then show ?case by simp
next
  case (Cons ev evs)
  have "h < length (handlers (step lib ev s)) \<and>
    promises (step lib ev s) (text_promise t) = Some v \<and>
    task_start_time t \<le> clock (step lib ev s) \<and>
    (task_of (handlers (step lib ev s) ! h) = Some t \<or>
       (\<exists>now. task_start_time t \<le> now \<and> now \<le> clock (step lib ev s) \<and>
          handlers (step lib ev s) ! h = Responded (completed_response v now t)))"
    by (rule fulfilled_step[OF Cons.prems])
  then show ?case using Cons.IH[of "step lib ev s"] by simp
qed

lemma task_start_time_reachable:
  assumes "invariant s" "h < length (handlers s)" "task_of (handlers s ! h) = Some t"
  shows "task_start_time t \<le> clock s"
  using assms by (simp add: invariant_def time_ok_def)

lemma receive_step:
  "step lib (Receive ctx req) s =
     s\<lparr>next_promise := Suc (next_promise s),
       handlers := handlers s @ [Created (new_task req (next_promise s) (clock s))]\<rparr>"
  by (simp add: step_def ProcessImage_begin_def)

lemma task_kept_step:
  assumes "h < length (handlers s)"
    "task_of (handlers s ! h) = Some t \<or> (\<exists>r. handlers s ! h = Responded r)"
  shows "h < length (handlers (step lib ev s)) \<and>
    (task_of (handlers (step lib ev s) ! h) = Some t \<or>
     (\<exists>r. handlers (step lib ev s) ! h = Responded r))"
proof (cases rule: step_cases[of ev lib s])
  case (Receive ctx req)
  with assms show ?thesis by (simp add: nth_append)
next
  case (Submit h' k t')
  with assms show ?thesis by (cases "h' = h") auto
next
  case (Notify h' k t')
  with assms show ?thesis by (cases "h' = h") auto
next
  case (Call_wait h' k t')
  with assms show ?thesis by (cases "h' = h") auto
next
  case (Complete h' k t' d v')
  with assms show ?thesis by (cases "h' = h") auto
next
  case (Timeout h' k t' d)
  with assms show ?thesis by (cases "h' = h") auto
qed (use assms in \<open>simp_all\<close>)

lemma task_kept_run:
  assumes "h < length (handlers s)"
    "task_of (handlers s ! h) = Some t \<or> (\<exists>r. handlers s ! h = Responded r)"
  shows "task_of (handlers (run lib evs s) ! h) = Some t \<or>
     (\<exists>r. handlers (run lib evs s) ! h = Responded r)"
  using assms
proof (induction evs arbitrary: s)
  case Nil
  then show ?case by simp
next
  case (Cons ev evs)
  have "h < length (handlers (step lib ev s)) \<and>
    (task_of (handlers (step lib ev s) ! h) = Some t \<or>
     (\<exists>r. handlers (step lib ev s) ! h = Responded r))"
    by (rule task_kept_step[OF Cons.prems])
  then show ?case using Cons.IH[of "step lib ev s"] by simp
qed

text \<open>
  The task of a request is the one its handler built when the request arrived: its
  creation timestamp is the clock at the arrival and its promise is the next one.
\<close>

lemma task_of_request:
  assumes inv: "invariant s"
    and t: "task_of (handlers (run lib evs (step lib (Receive ctx req) s)) ! length (handlers s))
              = Some t"
  shows "t = new_task req (length (handlers s)) (clock s)"
proof -
  let ?h = "length (handlers s)"
  let ?s1 = "step lib (Receive ctx req) s"
  have np: "next_promise s = ?h"
    using inv by (simp add: invariant_def ids_ok_def)
  have 1: "?h < length (handlers ?s1)" by (simp add: receive_step)
  have 2: "task_of (handlers ?s1 ! ?h) = Some (new_task req ?h (clock s))"
    by (simp add: receive_step np)
  have "task_of (handlers (run lib evs ?s1) ! ?h) = Some (new_task req ?h (clock s)) \<or>
     (\<exists>r. handlers (run lib evs ?s1) ! ?h = Responded r)"
    using 2 by (intro task_kept_run[OF 1]) simp
  with t show ?thesis by auto
qed

text \<open>
  C5, as the code has it. In every run, take a request, and any moment at which its
  result channel holds the result \<open>v\<close> while its handler still holds the task. The task's
  creation timestamp is the clock at the arrival of the request. From that moment on the
  handler's response, once there is one, is never the timeout: it has \<open>ok = True\<close> and
  the text \<open>v\<close>. When the handler's wait returns, the response has \<open>ok = True\<close>, the text
  \<open>v\<close>, and \<open>processing_time_ms\<close> is the number of whole milliseconds from the arrival of
  the request to the clock at the return of the wait, where the handler reads the clock.
  It is never negative, and not less than the milliseconds from the arrival to the moment
  taken, so not less than the time to the fulfillment.
\<close>

theorem completed_response_and_processing_time:
  "(let Sc = run lib evs0 (TaskProcessor lib n);
        h = length (handlers Sc);
        S0 = run lib evs (step lib (Receive ctx req) Sc);
        S = run lib evs' S0;
        S1 = step lib (Handler h k) S
    in task_of (handlers S0 ! h) = Some t \<and> promises S0 (text_promise t) = Some v \<longrightarrow>
         t = new_task req h (clock Sc) \<and>
         task_start_time t = clock Sc \<and>
         (response_of (handlers S ! h) = None \<or>
          (\<exists>now. clock Sc \<le> now \<and> now \<le> clock S \<and>
             response_of (handlers S ! h) = Some
               \<lparr>ok = True, text = v, message = [],
                processing_time_ms = duration_cast_milliseconds (now - clock Sc)\<rparr>)) \<and>
         (handlers S ! h = Waiting t d \<longrightarrow>
            handlers S1 ! h = Responded
              \<lparr>ok = True, text = v, message = [],
               processing_time_ms = duration_cast_milliseconds (clock S - clock Sc)\<rparr> \<and>
            0 \<le> duration_cast_milliseconds (clock S0 - clock Sc) \<and>
            duration_cast_milliseconds (clock S0 - clock Sc)
              \<le> duration_cast_milliseconds (clock S - clock Sc)))"
proof -
  define Sc where "Sc = run lib evs0 (TaskProcessor lib n)"
  define h where "h = length (handlers Sc)"
  define S0 where "S0 = run lib evs (step lib (Receive ctx req) Sc)"
  define S where "S = run lib evs' S0"
  define S1 where "S1 = step lib (Handler h k) S"
  have invc: "invariant Sc"
    unfolding Sc_def by (rule invariant_reachable)
  have inv0: "invariant S0"
    unfolding S0_def by (intro invariant_run invariant_step invc)
  have h0: "h < length (handlers S0)"
  proof -
    have "h < length (handlers (step lib (Receive ctx req) Sc))"
      by (simp add: receive_step h_def)
    then show ?thesis
      using length_handlers_run[of "step lib (Receive ctx req) Sc" lib evs]
      by (simp add: S0_def)
  qed
  have goal: "t = new_task req h (clock Sc) \<and>
         task_start_time t = clock Sc \<and>
         (response_of (handlers S ! h) = None \<or>
          (\<exists>now. clock Sc \<le> now \<and> now \<le> clock S \<and>
             response_of (handlers S ! h) = Some
               \<lparr>ok = True, text = v, message = [],
                processing_time_ms = duration_cast_milliseconds (now - clock Sc)\<rparr>)) \<and>
         (handlers S ! h = Waiting t d \<longrightarrow>
            handlers S1 ! h = Responded
              \<lparr>ok = True, text = v, message = [],
               processing_time_ms = duration_cast_milliseconds (clock S - clock Sc)\<rparr> \<and>
            0 \<le> duration_cast_milliseconds (clock S0 - clock Sc) \<and>
            duration_cast_milliseconds (clock S0 - clock Sc)
              \<le> duration_cast_milliseconds (clock S - clock Sc))"
    if a: "task_of (handlers S0 ! h) = Some t" "promises S0 (text_promise t) = Some v"
  proof -
    have tq: "t = new_task req h (clock Sc)"
      using task_of_request[OF invc, of lib evs ctx req t] a(1)
      by (simp add: S0_def h_def)
    then have ts: "task_start_time t = clock Sc"
      by (simp add: new_task_def)
    have st0: "task_start_time t \<le> clock S0"
      by (rule task_start_time_reachable[OF inv0 h0 a(1)])
    have later: "task_of (handlers S ! h) = Some t \<or>
       (\<exists>now. task_start_time t \<le> now \<and> now \<le> clock S \<and>
          handlers S ! h = Responded (completed_response v now t))"
      unfolding S_def using a(1) by (intro fulfilled_run[OF h0 a(2) st0]) simp
    have resp: "response_of (handlers S ! h) = None \<or>
          (\<exists>now. clock Sc \<le> now \<and> now \<le> clock S \<and>
             response_of (handlers S ! h) = Some
               \<lparr>ok = True, text = v, message = [],
                processing_time_ms = duration_cast_milliseconds (now - clock Sc)\<rparr>)"
    proof (cases "task_of (handlers S ! h) = Some t")
      case True
      then have "response_of (handlers S ! h) = None"
        by (cases "handlers S ! h") simp_all
      then show ?thesis by simp
    next
      case False
      with later obtain now where n: "task_start_time t \<le> now" "now \<le> clock S"
        "handlers S ! h = Responded (completed_response v now t)" by blast
      then have "response_of (handlers S ! h) = Some
               \<lparr>ok = True, text = v, message = [],
                processing_time_ms = duration_cast_milliseconds (now - clock Sc)\<rparr>"
        by (simp add: completed_response_def default_response_def ts)
      with n ts show ?thesis by auto
    qed
    have len: "h < length (handlers S)"
      using h0 length_handlers_run[of S0 lib evs'] by (simp add: S_def)
    have pS: "promises S (text_promise t) = Some v"
      unfolding S_def by (rule promises_run_mono[OF a(2)])
    have c: "clock S0 \<le> clock S"
      unfolding S_def by (rule clock_run)
    have wait: "handlers S1 ! h = Responded
              \<lparr>ok = True, text = v, message = [],
               processing_time_ms = duration_cast_milliseconds (clock S - clock Sc)\<rparr> \<and>
            0 \<le> duration_cast_milliseconds (clock S0 - clock Sc) \<and>
            duration_cast_milliseconds (clock S0 - clock Sc)
              \<le> duration_cast_milliseconds (clock S - clock Sc)"
      if w: "handlers S ! h = Waiting t d"
    proof -
      have eq: "S1 = S\<lparr>handlers := (handlers S)[h := Responded (completed_response v (clock S) t)]\<rparr>"
        unfolding S1_def by (rule complete_step[OF len w pS])
      show ?thesis
        using len st0 c ts
        by (simp add: eq completed_response_def default_response_def
            duration_cast_milliseconds_nonneg duration_cast_milliseconds_mono)
    qed
    from tq ts resp wait show ?thesis by blast
  qed
  then show ?thesis
    unfolding Let_def Sc_def h_def S0_def S_def S1_def by blast
qed

theorem completed_response_and_processing_time_witness:
  "clock (run demo_lib demo_arrival (TaskProcessor demo_lib 1)) = 2000000
   \<and> task_of (handlers (run demo_lib
        (demo_arrival @ Receive (client_context 0 120) (demo_request [1, 2]) # demo_fulfilled)
        (TaskProcessor demo_lib 1)) ! 0) = Some (new_task (demo_request [1, 2]) 0 2000000)
   \<and> promises (run demo_lib
        (demo_arrival @ Receive (client_context 0 120) (demo_request [1, 2]) # demo_fulfilled)
        (TaskProcessor demo_lib 1)) 0 = Some ''xx''
   \<and> handlers (run demo_lib
        (demo_arrival @ Receive (client_context 0 120) (demo_request [1, 2]) # demo_fulfilled
           @ [Tick 5000000]) (TaskProcessor demo_lib 1)) ! 0
       = Waiting (new_task (demo_request [1, 2]) 0 2000000) (2000000 + seconds 120)
   \<and> handlers (run demo_lib
        (demo_arrival @ Receive (client_context 0 120) (demo_request [1, 2]) # demo_fulfilled
           @ [Tick 5000000, Handler 0 0]) (TaskProcessor demo_lib 1)) ! 0
       = Responded \<lparr>ok = True, text = ''xx'', message = [], processing_time_ms = 8\<rparr>"
proof -
  let ?Sa = "run demo_lib demo_arrival (TaskProcessor demo_lib 1)"
  let ?Sb = "run demo_lib demo_fulfilled
    (step demo_lib (Receive (client_context 0 120) (demo_request [1, 2])) ?Sa)"
  let ?Sd = "run demo_lib [Tick 5000000] ?Sb"
  let ?t = "new_task (demo_request [1, 2]) 0 2000000"
  have c: "clock ?Sa = 2000000" and h: "length (handlers ?Sa) = 0"
    by (simp_all add: eval_defs)
  have a: "task_of (handlers ?Sb ! 0) = Some ?t" "promises ?Sb (text_promise ?t) = Some ''xx''"
    by (simp_all add: eval_defs)
  have w: "handlers ?Sd ! 0 = Waiting ?t (2000000 + seconds 120)"
    by (simp add: eval_defs)
  have cs: "clock ?Sd = 10000000"
    by (simp add: eval_defs)
  note th = completed_response_and_processing_time
      [where lib = demo_lib and ?evs0.0 = demo_arrival and n = 1
         and ctx = "client_context 0 120" and req = "demo_request [1, 2]"
         and evs = demo_fulfilled and evs' = "[Tick 5000000]" and k = 0
         and t = ?t and d = "2000000 + seconds 120" and v = "''xx''",
       unfolded Let_def h, THEN mp, OF conjI[OF a]]
  note r = th[THEN conjunct2, THEN conjunct2, THEN conjunct2, THEN mp, OF w, THEN conjunct1]
  have r8: "handlers (step demo_lib (Handler 0 0) ?Sd) ! 0 = Responded
      \<lparr>ok = True, text = ''xx'', message = [], processing_time_ms = 8\<rparr>"
    using r unfolding cs c by (simp add: duration_cast_milliseconds_def)
  have f1: "run demo_lib
        (demo_arrival @ Receive (client_context 0 120) (demo_request [1, 2]) # demo_fulfilled)
        (TaskProcessor demo_lib 1) = ?Sb"
    by (simp only: run_append run.simps)
  have f2: "run demo_lib
        (demo_arrival @ Receive (client_context 0 120) (demo_request [1, 2]) # demo_fulfilled
           @ [Tick 5000000]) (TaskProcessor demo_lib 1) = ?Sd"
    by (simp only: run_append run.simps)
  have f3: "run demo_lib
        (demo_arrival @ Receive (client_context 0 120) (demo_request [1, 2]) # demo_fulfilled
           @ [Tick 5000000, Handler 0 0]) (TaskProcessor demo_lib 1)
      = step demo_lib (Handler 0 0) ?Sd"
    by (simp only: run_append run.simps)
  have t0: "text_promise ?t = 0" by (simp add: new_task_def)
  show ?thesis
    unfolding f1 f2 f3 using c a w r8 unfolding t0 by (intro conjI)
qed

text \<open>
  The claim as stated fails where time passes between the worker's write and the return
  of the handler's wait: the request arrives at 2 milliseconds, its channel is empty
  until the worker writes the result at 5 milliseconds, which is 3 milliseconds after the
  task's creation timestamp; the handler's wait returns at 10 milliseconds and the
  response carries \<open>processing_time_ms = 8\<close>.
\<close>

theorem processing_time_is_read_after_fulfillment:
  "task_start_time (new_task (demo_request [1, 2]) 0 2000000) = 2000000
   \<and> promises (run demo_lib
        (demo_arrival @ Receive (client_context 0 120) (demo_request [1, 2]) # butlast demo_fulfilled)
        (TaskProcessor demo_lib 1)) 0 = None
   \<and> clock (run demo_lib
        (demo_arrival @ Receive (client_context 0 120) (demo_request [1, 2]) # demo_fulfilled)
        (TaskProcessor demo_lib 1)) = 5000000
   \<and> promises (run demo_lib
        (demo_arrival @ Receive (client_context 0 120) (demo_request [1, 2]) # demo_fulfilled)
        (TaskProcessor demo_lib 1)) 0 = Some ''xx''
   \<and> duration_cast_milliseconds (5000000 - 2000000) = 3
   \<and> handlers (run demo_lib
        (demo_arrival @ Receive (client_context 0 120) (demo_request [1, 2]) # demo_fulfilled
           @ [Tick 5000000, Handler 0 0]) (TaskProcessor demo_lib 1)) ! 0
       = Responded \<lparr>ok = True, text = ''xx'', message = [], processing_time_ms = 8\<rparr>"
  by (simp add: eval_defs)

section \<open>The bound of the handler's wait (C4)\<close>

lemma step_set_deadline: "step lib (set_deadline d ev) s = step lib ev s"
  by (cases ev) (simp_all add: step_def ProcessImage_begin_def)

lemma run_set_deadline: "run lib (map (set_deadline d) evs) s = run lib evs s"
  by (induction evs arbitrary: s) (simp_all add: step_set_deadline)

lemma call_wait_step:
  assumes "h < length (handlers s)" "handlers s ! h = Calling_wait t"
  shows "step lib (Handler h k) s =
    s\<lparr>handlers := (handlers s)[h := Waiting t (clock s + seconds 120)]\<rparr>"
  using assms by (simp add: step_def ProcessImage_step_def)

lemma waiting_step:
  assumes "h < length (handlers s)" "handlers s ! h = Waiting t d"
    "promises s (text_promise t) = None"
  shows "handlers (step lib (Handler h k) s) ! h
    = (if d \<le> clock s then Responded timeout_response else Waiting t d)"
  using assms by (simp add: step_def ProcessImage_step_def)

text \<open>
  C4, as the code has it. The handler's wait is bounded by 120 seconds from the moment
  \<^verbatim>\<open>wait_for\<close> is called, a constant of the server: with no result delivered the wait
  ends exactly when that deadline has passed. The caller's deadline reaches the handler in
  its context and is not read: a run of the server is the same whatever deadlines the
  callers set. The caller's deadline is a parameter of the client's call wrapper, 120
  seconds by default, and is set on the client's call only.
\<close>

theorem server_wait_is_fixed_at_120_seconds:
  "(h < length (handlers s) \<and> handlers s ! h = Calling_wait t \<longrightarrow>
      handlers (step lib (Handler h k) s) ! h = Waiting t (clock s + seconds 120))
   \<and> (h < length (handlers s) \<and> handlers s ! h = Waiting t d \<and>
       promises s (text_promise t) = None \<longrightarrow>
      handlers (step lib (Handler h k) s) ! h
        = (if d \<le> clock s then Responded timeout_response else Waiting t d))
   \<and> run lib (map (set_deadline d') evs) s = run lib evs s
   \<and> deadline (client_context now default_max_wait_seconds) = now + seconds 120
   \<and> deadline (client_context now max_wait_seconds) = now + seconds max_wait_seconds"
proof -
  have a: "h < length (handlers s) \<and> handlers s ! h = Calling_wait t \<longrightarrow>
      handlers (step lib (Handler h k) s) ! h = Waiting t (clock s + seconds 120)"
    by (simp add: call_wait_step)
  have b: "h < length (handlers s) \<and> handlers s ! h = Waiting t d \<and>
       promises s (text_promise t) = None \<longrightarrow>
      handlers (step lib (Handler h k) s) ! h
        = (if d \<le> clock s then Responded timeout_response else Waiting t d)"
    using waiting_step[of h s t d lib k] by blast
  have c: "run lib (map (set_deadline d') evs) s = run lib evs s"
    by (rule run_set_deadline)
  have d: "deadline (client_context now default_max_wait_seconds) = now + seconds 120"
    "deadline (client_context now max_wait_seconds) = now + seconds max_wait_seconds"
    by (simp_all add: client_context_def default_max_wait_seconds_def)
  from a b c d show ?thesis by blast
qed

theorem server_wait_is_fixed_at_120_seconds_witness:
  "handlers (run demo_lib [Receive (client_context 0 5) (demo_request [1, 2]), Handler 0 0,
       Handler 0 0] (TaskProcessor demo_lib 1)) ! 0 = Calling_wait demo_task
   \<and> handlers (run demo_lib [Receive (client_context 0 5) (demo_request [1, 2]), Handler 0 0,
       Handler 0 0, Handler 0 0] (TaskProcessor demo_lib 1)) ! 0 = Waiting demo_task (seconds 120)
   \<and> handlers (run demo_lib [Receive (client_context 0 5) (demo_request [1, 2]), Handler 0 0,
       Handler 0 0, Handler 0 0, Tick 119000000000, Handler 0 0] (TaskProcessor demo_lib 1)) ! 0
       = Waiting demo_task (seconds 120)
   \<and> handlers (run demo_lib [Receive (client_context 0 5) (demo_request [1, 2]), Handler 0 0,
       Handler 0 0, Handler 0 0, Tick 119000000000, Tick 1000000000, Handler 0 0]
       (TaskProcessor demo_lib 1)) ! 0 = Responded timeout_response
   \<and> deadline (client_context 0 default_max_wait_seconds) = seconds 120
   \<and> deadline (client_context 0 5) = seconds 5"
  using server_wait_is_fixed_at_120_seconds
      [where lib = demo_lib and h = 0 and k = 0 and t = demo_task
         and s = "run demo_lib [Receive (client_context 0 5) (demo_request [1, 2]), Handler 0 0,
           Handler 0 0] (TaskProcessor demo_lib 1)"
         and evs = "[]" and now = 0 and max_wait_seconds = 5]
    server_wait_is_fixed_at_120_seconds
      [where lib = demo_lib and h = 0 and k = 0 and t = demo_task and d = "seconds 120"
         and s = "run demo_lib [Receive (client_context 0 5) (demo_request [1, 2]), Handler 0 0,
           Handler 0 0, Handler 0 0, Tick 119000000000] (TaskProcessor demo_lib 1)"
         and evs = "[]" and now = 0 and max_wait_seconds = 5]
    server_wait_is_fixed_at_120_seconds
      [where lib = demo_lib and h = 0 and k = 0 and t = demo_task and d = "seconds 120"
         and s = "run demo_lib [Receive (client_context 0 5) (demo_request [1, 2]), Handler 0 0,
           Handler 0 0, Handler 0 0, Tick 119000000000, Tick 1000000000] (TaskProcessor demo_lib 1)"
         and evs = "[]" and now = 0 and max_wait_seconds = 5]
  by (simp add: eval_defs default_max_wait_seconds_def)

text \<open>
  The claim as stated fails: a caller sets a deadline of 5 seconds; 10 seconds later no
  result is delivered, and the handler has not returned: it is still inside its wait,
  whose deadline is 120 seconds.
\<close>

theorem server_wait_ignores_caller_deadline:
  "deadline (client_context 0 5) = seconds 5
   \<and> clock (run demo_lib [Receive (client_context 0 5) (demo_request [1, 2]), Handler 0 0,
       Handler 0 0, Handler 0 0, Tick 10000000000, Handler 0 0] (TaskProcessor demo_lib 1))
       = seconds 10
   \<and> promises (run demo_lib [Receive (client_context 0 5) (demo_request [1, 2]), Handler 0 0,
       Handler 0 0, Handler 0 0, Tick 10000000000, Handler 0 0] (TaskProcessor demo_lib 1)) 0
       = None
   \<and> handlers (run demo_lib [Receive (client_context 0 5) (demo_request [1, 2]), Handler 0 0,
       Handler 0 0, Handler 0 0, Tick 10000000000, Handler 0 0] (TaskProcessor demo_lib 1)) ! 0
       = Waiting demo_task (seconds 120)"
  by (simp add: eval_defs)

section \<open>The preprocessing pipeline (C6)\<close>

lemma try_block_image_data:
  "image_data t' = image_data t \<Longrightarrow> try_block lib eng t' = try_block lib eng t"
  by (simp add: try_block_def)

lemma library_calls_recognition:
  assumes "Call_GetUTF8Text \<in> set (library_calls lib eng t)"
  shows "\<exists>image_pix gray_pix enhanced_pix.
         pixReadMem lib (image_data t) = Inr (Some image_pix) \<and>
         pixConvertTo8 lib image_pix 0 = Inr gray_pix \<and>
         pixGammaTRC lib None gray_pix 1.2 50 180 = Inr enhanced_pix \<and>
         library_calls lib eng t =
           [Call_pixReadMem (image_data t), Call_pixConvertTo8 image_pix 0,
            Call_pixGammaTRC None gray_pix 1.2 50 180, Call_SetImage enhanced_pix,
            Call_GetUTF8Text]"
  using assms
  by (auto simp add: library_calls_def try_block_def Let_def
      split: sum.splits option.splits prod.splits)

lemma library_calls_prefix:
  "\<exists>image_pix gray_pix enhanced_pix.
     library_calls lib eng t =
       take (length (library_calls lib eng t))
         [Call_pixReadMem (image_data t), Call_pixConvertTo8 image_pix 0,
          Call_pixGammaTRC None gray_pix 1.2 50 180, Call_SetImage enhanced_pix,
          Call_GetUTF8Text] \<and>
     library_calls lib eng t \<noteq> []"
  by (auto simp add: library_calls_def try_block_def Let_def
      split: sum.splits option.splits prod.splits)

lemma extracted_text_recognized:
  assumes "pixReadMem lib (image_data t) = Inr (Some image_pix)"
    "pixConvertTo8 lib image_pix 0 = Inr gray_pix"
    "pixGammaTRC lib None gray_pix 1.2 50 180 = Inr enhanced_pix"
    "SetImage lib eng enhanced_pix = (eng1, None)"
    "GetUTF8Text lib eng1 = (eng2, Inr (Some ocr_result))"
  shows "extracted_text lib eng t = (eng2, ocr_result)"
  using assms by (simp add: extracted_text_def try_block_def)

text \<open>
  C6. Whenever the worker calls the recognition (\<^verbatim>\<open>GetUTF8Text\<close>) for a task, the calls
  it made for that task are exactly: decode the task's bytes (\<^verbatim>\<open>pixReadMem\<close>), convert
  the decoded image to grayscale (\<^verbatim>\<open>pixConvertTo8\<close>), enhance the gray image with gamma
  1.2, black point 50 and white point 180 (\<^verbatim>\<open>pixGammaTRC\<close>), set the enhanced image on
  the engine, recognise; and the text is what the engine returns for that image. In every
  case the calls made are a non-empty initial part of this sequence. The calls and their
  result depend on the task through its image bytes only: no other field of the task or
  the request changes them. This is what a worker does with every task it processes.
\<close>

theorem preprocessing_steps_before_recognition:
  "(Call_GetUTF8Text \<in> set (library_calls lib eng t) \<longrightarrow>
      (\<exists>image_pix gray_pix enhanced_pix.
         pixReadMem lib (image_data t) = Inr (Some image_pix) \<and>
         pixConvertTo8 lib image_pix 0 = Inr gray_pix \<and>
         pixGammaTRC lib None gray_pix 1.2 50 180 = Inr enhanced_pix \<and>
         library_calls lib eng t =
           [Call_pixReadMem (image_data t), Call_pixConvertTo8 image_pix 0,
            Call_pixGammaTRC None gray_pix 1.2 50 180, Call_SetImage enhanced_pix,
            Call_GetUTF8Text]))
   \<and> (\<exists>image_pix gray_pix enhanced_pix.
         library_calls lib eng t =
           take (length (library_calls lib eng t))
             [Call_pixReadMem (image_data t), Call_pixConvertTo8 image_pix 0,
              Call_pixGammaTRC None gray_pix 1.2 50 180, Call_SetImage enhanced_pix,
              Call_GetUTF8Text] \<and>
         library_calls lib eng t \<noteq> [])
   \<and> (pixReadMem lib (image_data t) = Inr (Some p) \<and>
       pixConvertTo8 lib p 0 = Inr g \<and>
       pixGammaTRC lib None g 1.2 50 180 = Inr e \<and>
       SetImage lib eng e = (eng1, None) \<and>
       GetUTF8Text lib eng1 = (eng2, Inr (Some ocr_result)) \<longrightarrow>
         extracted_text lib eng t = (eng2, ocr_result))
   \<and> (image_data t' = image_data t \<longrightarrow> try_block lib eng t' = try_block lib eng t)
   \<and> (w < length (workers s) \<and> pc (workers s ! w) = Processing t \<longrightarrow>
        pc (workers (step lib (Worker w) s) ! w)
          = Finished t (snd (extracted_text lib (ocr_engine (workers s ! w)) t)))"
proof -
  have a: "Call_GetUTF8Text \<in> set (library_calls lib eng t) \<longrightarrow>
      (\<exists>image_pix gray_pix enhanced_pix.
         pixReadMem lib (image_data t) = Inr (Some image_pix) \<and>
         pixConvertTo8 lib image_pix 0 = Inr gray_pix \<and>
         pixGammaTRC lib None gray_pix 1.2 50 180 = Inr enhanced_pix \<and>
         library_calls lib eng t =
           [Call_pixReadMem (image_data t), Call_pixConvertTo8 image_pix 0,
            Call_pixGammaTRC None gray_pix 1.2 50 180, Call_SetImage enhanced_pix,
            Call_GetUTF8Text])"
    using library_calls_recognition[of lib eng t] by blast
  have c: "pixReadMem lib (image_data t) = Inr (Some p) \<and>
       pixConvertTo8 lib p 0 = Inr g \<and>
       pixGammaTRC lib None g 1.2 50 180 = Inr e \<and>
       SetImage lib eng e = (eng1, None) \<and>
       GetUTF8Text lib eng1 = (eng2, Inr (Some ocr_result)) \<longrightarrow>
         extracted_text lib eng t = (eng2, ocr_result)"
    using extracted_text_recognized[of lib t p g e eng eng1 eng2 ocr_result] by blast
  have d: "image_data t' = image_data t \<longrightarrow> try_block lib eng t' = try_block lib eng t"
    using try_block_image_data[of t' t lib eng] by blast
  have e: "w < length (workers s) \<and> pc (workers s ! w) = Processing t \<longrightarrow>
        pc (workers (step lib (Worker w) s) ! w)
          = Finished t (snd (extracted_text lib (ocr_engine (workers s ! w)) t))"
    by (simp add: process_step)
  from a library_calls_prefix[of lib eng t] c d e show ?thesis by blast
qed

theorem preprocessing_steps_before_recognition_witness:
  "Call_GetUTF8Text \<in> set (library_calls demo_lib [] demo_task)
   \<and> library_calls demo_lib [] demo_task =
       [Call_pixReadMem [1, 2], Call_pixConvertTo8 [1, 2] 0,
        Call_pixGammaTRC None (Some [1, 2]) 1.2 50 180, Call_SetImage (Some [1, 2]),
        Call_GetUTF8Text]
   \<and> extracted_text demo_lib [] demo_task = ([1, 2], ''xx'')
   \<and> image_data (demo_task\<lparr>file_name := ''b.png'', language_code := ''fra''\<rparr>)
       = image_data demo_task
   \<and> try_block demo_lib [] (demo_task\<lparr>file_name := ''b.png'', language_code := ''fra''\<rparr>)
       = try_block demo_lib [] demo_task
   \<and> pc (workers (run demo_lib demo_taken (TaskProcessor demo_lib 1)) ! 0) = Processing demo_task
   \<and> pc (workers (run demo_lib (demo_taken @ [Worker 0]) (TaskProcessor demo_lib 1)) ! 0)
       = Finished demo_task ''xx''"
  using preprocessing_steps_before_recognition
      [where lib = demo_lib and eng = "[]" and t = demo_task and p = "[1, 2]"
         and g = "Some [1, 2]" and e = "Some [1, 2]" and ?eng1.0 = "[1, 2]"
         and ?eng2.0 = "[1, 2]" and ocr_result = "''xx''"
         and t' = "demo_task\<lparr>file_name := ''b.png'', language_code := ''fra''\<rparr>"
         and w = 0 and s = "run demo_lib demo_taken (TaskProcessor demo_lib 1)"]
  by (simp add: eval_defs library_calls_def)

section \<open>A task that raises an exception (C8)\<close>

lemma process_then_deliver:
  assumes w: "w < length (workers s)" and p: "pc (workers s ! w) = Processing t"
    and e: "promises s (text_promise t) = None"
  shows "run lib [Worker w, Worker w] s =
    s\<lparr>promises := (promises s)(text_promise t :=
         Some (snd (extracted_text lib (ocr_engine (workers s ! w)) t))),
      workers := (workers s)[w := (workers s ! w)
         \<lparr>ocr_engine := fst (extracted_text lib (ocr_engine (workers s ! w)) t),
          pc := Checking\<rparr>]\<rparr>"
proof -
  let ?r = "snd (extracted_text lib (ocr_engine (workers s ! w)) t)"
  let ?s1 = "step lib (Worker w) s"
  have s1: "?s1 = s\<lparr>workers := (workers s)[w := (workers s ! w)
         \<lparr>pc := Finished t ?r,
          ocr_engine := fst (extracted_text lib (ocr_engine (workers s ! w)) t)\<rparr>]\<rparr>"
    by (rule process_step[OF w p])
  have w1: "w < length (workers ?s1)" using w by simp
  have p1: "pc (workers ?s1 ! w) = Finished t ?r" using w by (simp add: s1)
  have "step lib (Worker w) ?s1 =
      ?s1\<lparr>promises := deliver (promises ?s1) (text_promise t) ?r,
        workers := (workers ?s1)[w := (workers ?s1 ! w)\<lparr>pc := Checking\<rparr>]\<rparr>"
    by (rule deliver_step[OF w1 p1])
  then show ?thesis
    using w e by (simp add: s1 deliver_eq)
qed

lemma take_step:
  assumes "w < length (workers s)" "pc (workers s ! w) = Checking" "pending_tasks s = t # ts"
  shows "pc (workers (step lib (Worker w) s) ! w) = Processing t"
  using assms by (simp add: step_def processTasks_step_def Let_def)

lemma exit_only_on_shutdown:
  assumes "w < length (workers s)" "pc (workers s ! w) \<noteq> Exited"
    "pc (workers (step lib ev s) ! w) = Exited"
  shows "ev = Worker w \<and> pc (workers s ! w) = Checking \<and> shutdown_requested s \<and>
         pending_tasks s = []"
proof (cases rule: step_cases[of ev lib s])
  case (Notify h k t)
  with assms notify_one_pc[of w "workers s" k] show ?thesis by auto
next
  case Notify_all
  with assms show ?thesis by (simp add: pc_wake split: if_splits)
qed (use assms in \<open>auto simp add: nth_list_update split: if_splits\<close>)

lemma catch_clauses_Inl:
  "catch_clauses (Inl e) =
     (case e of std_exception what \<Rightarrow> ''ERROR: '' @ what
      | other_exception \<Rightarrow> ''ERROR: unknown exception'')"
  by (cases e) simp_all

lemma try_block_raises:
  assumes "pixReadMem lib (image_data t) = Inl e \<or>
       pixReadMem lib (image_data t) = Inr (Some image_pix) \<and>
       (pixConvertTo8 lib image_pix 0 = Inl e \<or>
        pixConvertTo8 lib image_pix 0 = Inr gray_pix \<and>
        (pixGammaTRC lib None gray_pix 1.2 50 180 = Inl e \<or>
         pixGammaTRC lib None gray_pix 1.2 50 180 = Inr enhanced_pix \<and>
         (SetImage lib eng enhanced_pix = (eng1, Some e) \<or>
          SetImage lib eng enhanced_pix = (eng1, None) \<and>
          GetUTF8Text lib eng1 = (eng2, Inl e))))"
  shows "snd (snd (try_block lib eng t)) = Inl e"
  using assms by (auto simp add: try_block_def)

text \<open>
  C8. In every run: when a library call of the processing of a task raises an exception
  (the decoding \<^verbatim>\<open>pixReadMem\<close>, or, after the calls before it have returned, the
  preprocessing \<^verbatim>\<open>pixConvertTo8\<close> or \<^verbatim>\<open>pixGammaTRC\<close>, or \<^verbatim>\<open>SetImage\<close>, or the
  recognition \<^verbatim>\<open>GetUTF8Text\<close>), the worker's next two steps store the marker string
  "ERROR: " followed by the exception's message, or "ERROR: unknown exception" for an
  exception that is not a \<^verbatim>\<open>std::exception\<close>, in the task's promise, as they store a
  recognised text, and leave the worker at the head of its loop, where it takes the next
  pending task. A worker leaves its loop in one way only: by its own step, at the head of
  the loop, when shutdown is requested and the queue is empty.
\<close>

theorem worker_survives_failing_task:
  "(let S = run lib evs (TaskProcessor lib n);
        eng = ocr_engine (workers S ! w);
        S2 = run lib [Worker w, Worker w] S
    in w < n \<and> pc (workers S ! w) = Processing t \<and>
       (pixReadMem lib (image_data t) = Inl e \<or>
        pixReadMem lib (image_data t) = Inr (Some image_pix) \<and>
        (pixConvertTo8 lib image_pix 0 = Inl e \<or>
         pixConvertTo8 lib image_pix 0 = Inr gray_pix \<and>
         (pixGammaTRC lib None gray_pix 1.2 50 180 = Inl e \<or>
          pixGammaTRC lib None gray_pix 1.2 50 180 = Inr enhanced_pix \<and>
          (SetImage lib eng enhanced_pix = (eng1, Some e) \<or>
           SetImage lib eng enhanced_pix = (eng1, None) \<and>
           GetUTF8Text lib eng1 = (eng2, Inl e))))) \<longrightarrow>
         promises S2 (text_promise t)
           = Some (case e of std_exception what \<Rightarrow> ''ERROR: '' @ what
                   | other_exception \<Rightarrow> ''ERROR: unknown exception'') \<and>
         pc (workers S2 ! w) = Checking \<and>
         (pending_tasks S2 = t2 # ts \<longrightarrow>
            pc (workers (step lib (Worker w) S2) ! w) = Processing t2))
   \<and> (w' < length (workers s) \<and> pc (workers s ! w') \<noteq> Exited \<and>
       pc (workers (step lib ev s) ! w') = Exited \<longrightarrow>
         ev = Worker w' \<and> pc (workers s ! w') = Checking \<and> shutdown_requested s \<and>
         pending_tasks s = [])"
proof -
  define S where "S = run lib evs (TaskProcessor lib n)"
  define eng where "eng = ocr_engine (workers S ! w)"
  define S2 where "S2 = run lib [Worker w, Worker w] S"
  have a: "promises S2 (text_promise t)
           = Some (case e of std_exception what \<Rightarrow> ''ERROR: '' @ what
                   | other_exception \<Rightarrow> ''ERROR: unknown exception'') \<and>
         pc (workers S2 ! w) = Checking \<and>
         (pending_tasks S2 = t2 # ts \<longrightarrow>
            pc (workers (step lib (Worker w) S2) ! w) = Processing t2)"
    if h: "w < n" "pc (workers S ! w) = Processing t"
      "pixReadMem lib (image_data t) = Inl e \<or>
        pixReadMem lib (image_data t) = Inr (Some image_pix) \<and>
        (pixConvertTo8 lib image_pix 0 = Inl e \<or>
         pixConvertTo8 lib image_pix 0 = Inr gray_pix \<and>
         (pixGammaTRC lib None gray_pix 1.2 50 180 = Inl e \<or>
          pixGammaTRC lib None gray_pix 1.2 50 180 = Inr enhanced_pix \<and>
          (SetImage lib eng enhanced_pix = (eng1, Some e) \<or>
           SetImage lib eng enhanced_pix = (eng1, None) \<and>
           GetUTF8Text lib eng1 = (eng2, Inl e))))"
  proof -
    have wl: "w < length (workers S)" using h(1) by (simp add: S_def)
    have inv: "invariant S" unfolding S_def by (rule invariant_reachable)
    have emp: "promises S (text_promise t) = None"
      using held_promise_empty[OF inv wl] h(2) by simp
    have raised: "snd (snd (try_block lib (ocr_engine (workers S ! w)) t)) = Inl e"
      using h(3) unfolding eng_def by (rule try_block_raises)
    have tx: "snd (extracted_text lib (ocr_engine (workers S ! w)) t) = catch_clauses (Inl e)"
      using raised by (auto simp add: extracted_text_def split: prod.splits)
    have eq: "S2 = S\<lparr>promises := (promises S)(text_promise t := Some (catch_clauses (Inl e))),
      workers := (workers S)[w := (workers S ! w)
         \<lparr>ocr_engine := fst (extracted_text lib (ocr_engine (workers S ! w)) t),
          pc := Checking\<rparr>]\<rparr>"
      unfolding S2_def using process_then_deliver[OF wl h(2) emp, of lib] tx by simp
    have c: "pc (workers S2 ! w) = Checking" using wl by (simp add: eq)
    have wl2: "w < length (workers S2)" using wl by (simp add: eq)
    have "pc (workers (step lib (Worker w) S2) ! w) = Processing t2"
      if "pending_tasks S2 = t2 # ts"
      by (rule take_step[OF wl2 c that])
    then show ?thesis
      using c by (simp add: eq catch_clauses_Inl)
  qed
  have b: "w' < length (workers s) \<and> pc (workers s ! w') \<noteq> Exited \<and>
       pc (workers (step lib ev s) ! w') = Exited \<longrightarrow>
         ev = Worker w' \<and> pc (workers s ! w') = Checking \<and> shutdown_requested s \<and>
         pending_tasks s = []"
    using exit_only_on_shutdown[of w' s lib ev] by blast
  from a b show ?thesis
    unfolding Let_def S_def S2_def eng_def by blast
qed


theorem worker_survives_failing_task_witness:
  "pc (workers (run demo_lib (demo_two_requests [7] [1, 2]) (TaskProcessor demo_lib 1)) ! 0)
      = Processing (demo_task_with [7])
   \<and> pixReadMem demo_lib [7] = Inl (std_exception ''bad image'')
   \<and> promises (run demo_lib (demo_two_requests [7] [1, 2] @ [Worker 0, Worker 0])
        (TaskProcessor demo_lib 1)) 0 = Some ''ERROR: bad image''
   \<and> pc (workers (run demo_lib (demo_two_requests [7] [1, 2] @ [Worker 0, Worker 0])
        (TaskProcessor demo_lib 1)) ! 0) = Checking
   \<and> pc (workers (run demo_lib (demo_two_requests [7] [1, 2] @ [Worker 0, Worker 0, Worker 0])
        (TaskProcessor demo_lib 1)) ! 0) = Processing ((demo_task_with [1, 2])\<lparr>text_promise := 1\<rparr>)
   \<and> promises (run demo_lib (demo_two_requests [7] [1, 2]
          @ [Worker 0, Worker 0, Worker 0, Worker 0, Worker 0])
        (TaskProcessor demo_lib 1)) 1 = Some ''xx''
   \<and> pc (workers (run (demo_lib_raising 2) (demo_taken_with [1, 2]) (TaskProcessor (demo_lib_raising 2) 1)) ! 0)
      = Processing (demo_task_with [1, 2])
   \<and> pixConvertTo8 (demo_lib_raising 2) [1, 2] 0 = Inl (std_exception ''no gray'')
   \<and> promises (run (demo_lib_raising 2) (demo_taken_with [1, 2] @ [Worker 0, Worker 0])
        (TaskProcessor (demo_lib_raising 2) 1)) 0 = Some ''ERROR: no gray''
   \<and> pc (workers (run (demo_lib_raising 3) (demo_taken_with [1, 2]) (TaskProcessor (demo_lib_raising 3) 1)) ! 0)
      = Processing (demo_task_with [1, 2])
   \<and> pixGammaTRC (demo_lib_raising 3) None (Some [1, 2]) 1.2 50 180 = Inl other_exception
   \<and> promises (run (demo_lib_raising 3) (demo_taken_with [1, 2] @ [Worker 0, Worker 0])
        (TaskProcessor (demo_lib_raising 3) 1)) 0 = Some ''ERROR: unknown exception''
   \<and> pc (workers (run (demo_lib_raising 4) (demo_taken_with [1, 2]) (TaskProcessor (demo_lib_raising 4) 1)) ! 0)
      = Processing (demo_task_with [1, 2])
   \<and> SetImage (demo_lib_raising 4) [] (Some [1, 2]) = ([1, 2], Some (std_exception ''no image''))
   \<and> promises (run (demo_lib_raising 4) (demo_taken_with [1, 2] @ [Worker 0, Worker 0])
        (TaskProcessor (demo_lib_raising 4) 1)) 0 = Some ''ERROR: no image''
   \<and> pc (workers (run demo_lib (demo_taken_with [1, 2, 3]) (TaskProcessor demo_lib 1)) ! 0)
      = Processing (demo_task_with [1, 2, 3])
   \<and> GetUTF8Text demo_lib [1, 2, 3] = ([1, 2, 3], Inl other_exception)
   \<and> promises (run demo_lib (demo_taken_with [1, 2, 3] @ [Worker 0, Worker 0])
        (TaskProcessor demo_lib 1)) 0 = Some ''ERROR: unknown exception''
   \<and> pc (workers (run demo_lib (demo_taken_with [1, 2, 3] @ [Worker 0, Worker 0, Stop])
        (TaskProcessor demo_lib 1)) ! 0) = Checking
   \<and> pc (workers (run demo_lib (demo_taken_with [1, 2, 3] @ [Worker 0, Worker 0, Stop, Worker 0])
        (TaskProcessor demo_lib 1)) ! 0) = Exited"
proof -
  have 1: "pc (workers (run demo_lib (demo_two_requests [7] [1, 2]) (TaskProcessor demo_lib 1)) ! 0)
      = Processing (demo_task_with [7])
   \<and> pixReadMem demo_lib [7] = Inl (std_exception ''bad image'')
   \<and> promises (run demo_lib (demo_two_requests [7] [1, 2] @ [Worker 0, Worker 0])
        (TaskProcessor demo_lib 1)) 0 = Some ''ERROR: bad image''
   \<and> pc (workers (run demo_lib (demo_two_requests [7] [1, 2] @ [Worker 0, Worker 0])
        (TaskProcessor demo_lib 1)) ! 0) = Checking
   \<and> pc (workers (run demo_lib (demo_two_requests [7] [1, 2] @ [Worker 0, Worker 0, Worker 0])
        (TaskProcessor demo_lib 1)) ! 0) = Processing ((demo_task_with [1, 2])\<lparr>text_promise := 1\<rparr>)
   \<and> promises (run demo_lib (demo_two_requests [7] [1, 2]
          @ [Worker 0, Worker 0, Worker 0, Worker 0, Worker 0])
        (TaskProcessor demo_lib 1)) 1 = Some ''xx''
   \<and> pc (workers (run demo_lib (demo_taken_with [1, 2, 3] @ [Worker 0, Worker 0, Stop])
        (TaskProcessor demo_lib 1)) ! 0) = Checking
   \<and> pc (workers (run demo_lib (demo_taken_with [1, 2, 3] @ [Worker 0, Worker 0, Stop, Worker 0])
        (TaskProcessor demo_lib 1)) ! 0) = Exited"
    using worker_survives_failing_task
      [where lib = demo_lib and evs = "demo_two_requests [7] [1, 2]" and n = 1 and w = 0
         and t = "demo_task_with [7]" and e = "std_exception ''bad image''"
         and image_pix = "[]" and gray_pix = None and enhanced_pix = None
         and ?eng1.0 = "[]" and ?eng2.0 = "[]"
         and ?t2.0 = "(demo_task_with [1, 2])\<lparr>text_promise := 1\<rparr>" and ts = "[]"
         and w' = 0 and ev = "Worker 0"
         and s = "run demo_lib (demo_taken_with [1, 2, 3] @ [Worker 0, Worker 0, Stop])
                    (TaskProcessor demo_lib 1)"]
    by (simp add: eval_defs)
  have 2: "pc (workers (run (demo_lib_raising 2) (demo_taken_with [1, 2]) (TaskProcessor (demo_lib_raising 2) 1)) ! 0)
      = Processing (demo_task_with [1, 2])
   \<and> pixConvertTo8 (demo_lib_raising 2) [1, 2] 0 = Inl (std_exception ''no gray'')
   \<and> promises (run (demo_lib_raising 2) (demo_taken_with [1, 2] @ [Worker 0, Worker 0])
        (TaskProcessor (demo_lib_raising 2) 1)) 0 = Some ''ERROR: no gray''"
    using worker_survives_failing_task
      [where lib = "demo_lib_raising 2" and evs = "demo_taken_with [1, 2]" and n = 1 and w = 0
         and t = "demo_task_with [1, 2]" and e = "std_exception ''no gray''"
         and image_pix = "[1, 2]" and gray_pix = None and enhanced_pix = None
         and ?eng1.0 = "[]" and ?eng2.0 = "[]"
         and w' = 0 and ev = "Worker 0"
         and s = "run demo_lib (demo_taken_with [1, 2, 3] @ [Worker 0, Worker 0, Stop])
                    (TaskProcessor demo_lib 1)"]
    by (simp add: eval_defs)
  have 3: "pc (workers (run (demo_lib_raising 3) (demo_taken_with [1, 2]) (TaskProcessor (demo_lib_raising 3) 1)) ! 0)
      = Processing (demo_task_with [1, 2])
   \<and> pixGammaTRC (demo_lib_raising 3) None (Some [1, 2]) 1.2 50 180 = Inl other_exception
   \<and> promises (run (demo_lib_raising 3) (demo_taken_with [1, 2] @ [Worker 0, Worker 0])
        (TaskProcessor (demo_lib_raising 3) 1)) 0 = Some ''ERROR: unknown exception''"
    using worker_survives_failing_task
      [where lib = "demo_lib_raising 3" and evs = "demo_taken_with [1, 2]" and n = 1 and w = 0
         and t = "demo_task_with [1, 2]" and e = other_exception
         and image_pix = "[1, 2]" and gray_pix = "Some [1, 2]" and enhanced_pix = None
         and ?eng1.0 = "[]" and ?eng2.0 = "[]"
         and w' = 0 and ev = "Worker 0"
         and s = "run demo_lib (demo_taken_with [1, 2, 3] @ [Worker 0, Worker 0, Stop])
                    (TaskProcessor demo_lib 1)"]
    by (simp add: eval_defs)
  have 4: "pc (workers (run (demo_lib_raising 4) (demo_taken_with [1, 2]) (TaskProcessor (demo_lib_raising 4) 1)) ! 0)
      = Processing (demo_task_with [1, 2])
   \<and> SetImage (demo_lib_raising 4) [] (Some [1, 2]) = ([1, 2], Some (std_exception ''no image''))
   \<and> promises (run (demo_lib_raising 4) (demo_taken_with [1, 2] @ [Worker 0, Worker 0])
        (TaskProcessor (demo_lib_raising 4) 1)) 0 = Some ''ERROR: no image''"
    using worker_survives_failing_task
      [where lib = "demo_lib_raising 4" and evs = "demo_taken_with [1, 2]" and n = 1 and w = 0
         and t = "demo_task_with [1, 2]" and e = "std_exception ''no image''"
         and image_pix = "[1, 2]" and gray_pix = "Some [1, 2]" and enhanced_pix = "Some [1, 2]"
         and ?eng1.0 = "[1, 2]" and ?eng2.0 = "[]"
         and w' = 0 and ev = "Worker 0"
         and s = "run demo_lib (demo_taken_with [1, 2, 3] @ [Worker 0, Worker 0, Stop])
                    (TaskProcessor demo_lib 1)"]
    by (simp add: eval_defs)
  have 5: "pc (workers (run demo_lib (demo_taken_with [1, 2, 3]) (TaskProcessor demo_lib 1)) ! 0)
      = Processing (demo_task_with [1, 2, 3])
   \<and> GetUTF8Text demo_lib [1, 2, 3] = ([1, 2, 3], Inl other_exception)
   \<and> promises (run demo_lib (demo_taken_with [1, 2, 3] @ [Worker 0, Worker 0])
        (TaskProcessor demo_lib 1)) 0 = Some ''ERROR: unknown exception''"
    using worker_survives_failing_task
      [where lib = demo_lib and evs = "demo_taken_with [1, 2, 3]" and n = 1 and w = 0
         and t = "demo_task_with [1, 2, 3]" and e = other_exception
         and image_pix = "[1, 2, 3]" and gray_pix = "Some [1, 2, 3]"
         and enhanced_pix = "Some [1, 2, 3]"
         and ?eng1.0 = "[1, 2, 3]" and ?eng2.0 = "[1, 2, 3]"
         and w' = 0 and ev = "Worker 0"
         and s = "run demo_lib (demo_taken_with [1, 2, 3] @ [Worker 0, Worker 0, Stop])
                    (TaskProcessor demo_lib 1)"]
    by (simp add: eval_defs)
  from 1 2 3 4 5 show ?thesis by blast
qed

section \<open>A task that does not decode (C7)\<close>

lemma extracted_text_decode_failure:
  "pixReadMem lib (image_data t) = Inr None \<Longrightarrow> extracted_text lib eng t = (eng, [])"
  by (simp add: extracted_text_def try_block_def)

lemma library_calls_decode_failure:
  "pixReadMem lib (image_data t) = Inr None \<Longrightarrow>
   library_calls lib eng t = [Call_pixReadMem (image_data t)]"
  by (simp add: library_calls_def try_block_def)

lemma extracted_text_nothing_recognised:
  "snd (snd (try_block lib eng t)) = Inr [] \<Longrightarrow> snd (extracted_text lib eng t) = []"
  by (auto simp add: extracted_text_def split: prod.splits)

text \<open>
  C7. When the decoder returns no image for a task's bytes, the worker makes no further
  library call and its extracted text is empty, the engine untouched. In every run, when
  a worker is processing such a task and the task's handler is waiting, the worker's next
  two steps deliver the empty text and leave the worker in its loop, and the handler's
  next step returns \<open>ok = True\<close> with the empty text. The delivered value is the one that
  an image with no recognisable text delivers, and the response is computed from the
  delivered value, so the caller cannot tell the two apart.
\<close>

theorem decode_failure_gives_empty_text_and_ok:
  "(pixReadMem lib (image_data t) = Inr None \<longrightarrow>
      extracted_text lib eng t = (eng, []) \<and>
      library_calls lib eng t = [Call_pixReadMem (image_data t)] \<and>
      (snd (snd (try_block lib eng' t')) = Inr [] \<longrightarrow>
         snd (extracted_text lib eng' t') = snd (extracted_text lib eng t)))
   \<and> (let S = run lib evs (TaskProcessor lib n);
           S2 = run lib [Worker w, Worker w] S;
           S3 = step lib (Handler h k) S2
       in pixReadMem lib (image_data t) = Inr None \<and>
          w < n \<and> pc (workers S ! w) = Processing t \<and>
          h < length (handlers S) \<and> handlers S ! h = Waiting t d \<longrightarrow>
            promises S2 (text_promise t) = Some [] \<and>
            pc (workers S2 ! w) = Checking \<and>
            handlers S3 ! h = Responded
              \<lparr>ok = True, text = [], message = [],
               processing_time_ms = duration_cast_milliseconds (clock S - task_start_time t)\<rparr>)"
proof -
  have a: "extracted_text lib eng t = (eng, []) \<and>
      library_calls lib eng t = [Call_pixReadMem (image_data t)] \<and>
      (snd (snd (try_block lib eng' t')) = Inr [] \<longrightarrow>
         snd (extracted_text lib eng' t') = snd (extracted_text lib eng t))"
    if "pixReadMem lib (image_data t) = Inr None"
    using that
    by (simp add: extracted_text_decode_failure library_calls_decode_failure
        extracted_text_nothing_recognised)
  define S where "S = run lib evs (TaskProcessor lib n)"
  define S2 where "S2 = run lib [Worker w, Worker w] S"
  define S3 where "S3 = step lib (Handler h k) S2"
  have b: "promises S2 (text_promise t) = Some [] \<and>
            pc (workers S2 ! w) = Checking \<and>
            handlers S3 ! h = Responded
              \<lparr>ok = True, text = [], message = [],
               processing_time_ms = duration_cast_milliseconds (clock S - task_start_time t)\<rparr>"
    if h: "pixReadMem lib (image_data t) = Inr None" "w < n" "pc (workers S ! w) = Processing t"
      "h < length (handlers S)" "handlers S ! h = Waiting t d"
  proof -
    have wl: "w < length (workers S)" using h(2) by (simp add: S_def)
    have inv: "invariant S" unfolding S_def by (rule invariant_reachable)
    have emp: "promises S (text_promise t) = None"
      using held_promise_empty[OF inv wl] h(3) by simp
    have eq: "S2 = S\<lparr>promises := (promises S)(text_promise t := Some []),
      workers := (workers S)[w := (workers S ! w)
         \<lparr>ocr_engine := ocr_engine (workers S ! w), pc := Checking\<rparr>]\<rparr>"
      unfolding S2_def using process_then_deliver[OF wl h(3) emp, of lib]
      by (simp add: extracted_text_decode_failure[OF h(1)])
    have h2: "h < length (handlers S2)" "handlers S2 ! h = Waiting t d"
      "promises S2 (text_promise t) = Some []"
      using h(4) h(5) by (simp_all add: eq)
    have "S3 = S2\<lparr>handlers := (handlers S2)[h := Responded (completed_response [] (clock S2) t)]\<rparr>"
      unfolding S3_def by (rule complete_step[OF h2])
    then show ?thesis
      using wl h(4) by (simp add: eq completed_response_def default_response_def)
  qed
  from a b show ?thesis
    unfolding Let_def S_def S2_def S3_def by blast
qed

theorem decode_failure_gives_empty_text_and_ok_witness:
  "pixReadMem demo_lib (image_data (demo_task_with [])) = Inr None
   \<and> extracted_text demo_lib [] (demo_task_with []) = ([], [])
   \<and> snd (snd (try_block demo_lib [] (demo_task_with [0, 0]))) = Inr []
   \<and> snd (extracted_text demo_lib [] (demo_task_with [0, 0])) = []
   \<and> pc (workers (run demo_lib (demo_taken_with []) (TaskProcessor demo_lib 1)) ! 0)
       = Processing (demo_task_with [])
   \<and> handlers (run demo_lib (demo_taken_with []) (TaskProcessor demo_lib 1)) ! 0
       = Waiting (demo_task_with []) (seconds 120)
   \<and> promises (run demo_lib (demo_taken_with [] @ [Worker 0, Worker 0])
        (TaskProcessor demo_lib 1)) 0 = Some []
   \<and> handlers (run demo_lib (demo_taken_with [] @ [Worker 0, Worker 0, Handler 0 0])
        (TaskProcessor demo_lib 1)) ! 0
       = Responded \<lparr>ok = True, text = [], message = [], processing_time_ms = 0\<rparr>
   \<and> handlers (run demo_lib (demo_taken_with [0, 0] @ [Worker 0, Worker 0, Handler 0 0])
        (TaskProcessor demo_lib 1)) ! 0
       = Responded \<lparr>ok = True, text = [], message = [], processing_time_ms = 0\<rparr>"
  using decode_failure_gives_empty_text_and_ok
      [where lib = demo_lib and t = "demo_task_with []" and eng = "[]" and eng' = "[]"
         and t' = "demo_task_with [0, 0]" and evs = "demo_taken_with []" and n = 1
         and w = 0 and h = 0 and k = 0 and d = "seconds 120"]
  by (simp add: eval_defs)

section \<open>Shutdown (C9)\<close>

lemma stop_flag_step:
  assumes "main_thread s = Serving" "\<not> shutdown_requested s"
  shows "step lib Stop s = s\<lparr>shutdown_requested := True, main_thread := Stop_notifying\<rparr>"
  using assms by (simp add: step_def stopProcessing_step_def stopProcessing_locked_def)

lemma notify_all_step:
  assumes "main_thread s = Stop_notifying"
  shows "step lib Stop s = s\<lparr>workers := notify_all (workers s), main_thread := Stop_joining 0\<rparr>"
  using assms by (simp add: step_def stopProcessing_step_def)

lemma stop_again_step:
  assumes "main_thread s = Stop_returned" "shutdown_requested s"
  shows "step lib Stop s = s"
  using assms by (simp add: step_def stopProcessing_step_def stopProcessing_locked_def)

lemma join_step:
  assumes "shutdown_ok s"
    "main_thread s = Stop_joining i" "main_thread (step lib Stop s) = Stop_joining (Suc i)"
  shows "i < length (workers s) \<and> pc (workers s ! i) = Exited \<and>
         joined (workers (step lib Stop s) ! i)"
  using assms
  by (cases rule: step_cases[of Stop lib s]) (auto simp add: shutdown_ok_def)

lemma checking_step:
  assumes "w < length (workers s)" "pc (workers s ! w) = Checking"
  shows "(pc (workers (step lib (Worker w) s) ! w) = Asleep
            \<longleftrightarrow> \<not> (shutdown_requested s \<or> pending_tasks s \<noteq> [])) \<and>
         (pc (workers (step lib (Worker w) s) ! w) = Exited
            \<longleftrightarrow> shutdown_requested s \<and> pending_tasks s = [])"
  using assms by (simp add: step_def processTasks_step_def Let_def)

lemma submitted_step_mono:
  "set (submitted (queue_log s)) \<subseteq> set (submitted (queue_log (step lib ev s)))"
  by (cases rule: step_cases[of ev lib s]) (auto simp add: submitted_append)

lemma dequeued_step_mono:
  "set (dequeued (queue_log s)) \<subseteq> set (dequeued (queue_log (step lib ev s)))"
  by (cases rule: step_cases[of ev lib s]) (auto simp add: dequeued_append)

lemma drained_step:
  assumes f: "fifo_ok s" and sub: "T \<subseteq> set (submitted (queue_log s))"
    and d: "\<forall>w < length (workers s). pc (workers s ! w) = Exited \<longrightarrow>
              T \<subseteq> snd ` set (dequeued (queue_log s))"
  shows "\<forall>w < length (workers (step lib ev s)). pc (workers (step lib ev s) ! w) = Exited \<longrightarrow>
              T \<subseteq> snd ` set (dequeued (queue_log (step lib ev s)))"
proof (intro allI impI)
  fix w
  assume w: "w < length (workers (step lib ev s))"
    and e: "pc (workers (step lib ev s) ! w) = Exited"
  have wl: "w < length (workers s)" using w by simp
  show "T \<subseteq> snd ` set (dequeued (queue_log (step lib ev s)))"
  proof (cases "pc (workers s ! w) = Exited")
    case True
    then have "T \<subseteq> snd ` set (dequeued (queue_log s))" using d wl by blast
    then show ?thesis using dequeued_step_mono[of s lib ev] by blast
  next
    case False
    then have "pending_tasks s = []"
      using exit_only_on_shutdown[OF wl False e] by simp
    then have "set (submitted (queue_log s)) = snd ` set (dequeued (queue_log s))"
      using f by (simp add: fifo_ok_def set_map[symmetric] del: set_map)
    then have "T \<subseteq> snd ` set (dequeued (queue_log s))" using sub by simp
    then show ?thesis using dequeued_step_mono[of s lib ev] by blast
  qed
qed

lemma drained_run:
  assumes "fifo_ok s" "T \<subseteq> set (submitted (queue_log s))"
    "\<forall>w < length (workers s). pc (workers s ! w) = Exited \<longrightarrow>
              T \<subseteq> snd ` set (dequeued (queue_log s))"
  shows "\<forall>w < length (workers (run lib evs s)). pc (workers (run lib evs s) ! w) = Exited \<longrightarrow>
              T \<subseteq> snd ` set (dequeued (queue_log (run lib evs s)))"
  using assms
proof (induction evs arbitrary: s)
  case Nil
  then show ?case by simp
next
  case (Cons ev evs)
  have 1: "fifo_ok (step lib ev s)" using Cons.prems(1) by (rule fifo_ok_step)
  have 2: "T \<subseteq> set (submitted (queue_log (step lib ev s)))"
    using Cons.prems(2) submitted_step_mono[of s lib ev] by blast
  have 3: "\<forall>w < length (workers (step lib ev s)). pc (workers (step lib ev s) ! w) = Exited \<longrightarrow>
              T \<subseteq> snd ` set (dequeued (queue_log (step lib ev s)))"
    by (rule drained_step[OF Cons.prems])
  show ?case using Cons.IH[OF 1 2 3] by simp
qed

lemma sum_list_steps_update:
  assumes "w < length ws"
  shows "sum_list (map (\<lambda>wk. steps_left (pc wk)) (ws[w := wk']))
       + steps_left (pc (ws ! w))
     = sum_list (map (\<lambda>wk. steps_left (pc wk)) ws) + steps_left (pc wk')"
  using assms
proof (induction ws arbitrary: w)
  case Nil
  then show ?case by simp
next
  case (Cons a ws)
  then show ?case by (cases w) (simp_all add: add.assoc add.left_commute)
qed

lemma init_step:
  assumes "w < length (workers s)" "pc (workers s ! w) = Starting"
  shows "step lib (Worker w) s =
    s\<lparr>workers := (workers s)[w := (workers s ! w)\<lparr>pc := Checking,
         ocr_engine := fst (Init lib (ocr_engine (workers s ! w))
           ''/opt/homebrew/share/tessdata'' ''eng'')\<rparr>]\<rparr>"
  using assms by (simp add: step_def processTasks_step_def Let_def split: prod.splits)

lemma work_left_decreases:
  assumes sd: "shutdown_requested s" and w: "w < length (workers s)"
    and ne: "pc (workers s ! w) \<noteq> Exited" and na: "pc (workers s ! w) \<noteq> Asleep"
  shows "work_left (step lib (Worker w) s) < work_left s"
proof (cases "pc (workers s ! w)")
  case Starting
  then show ?thesis
    using w sum_list_steps_update[OF w, of "(workers s ! w)\<lparr>pc := Checking,
         ocr_engine := fst (Init lib (ocr_engine (workers s ! w))
           ''/opt/homebrew/share/tessdata'' ''eng'')\<rparr>"]
    by (simp add: init_step work_left_def)
next
  case Checking
  show ?thesis
  proof (cases "pending_tasks s")
    case Nil
    then show ?thesis
      using w sd Checking sum_list_steps_update[OF w, of "(workers s ! w)\<lparr>pc := Exited\<rparr>"]
      by (simp add: step_def processTasks_step_def Let_def work_left_def)
  next
    case (Cons t ts)
    then show ?thesis
      using w sd Checking sum_list_steps_update[OF w, of "(workers s ! w)\<lparr>pc := Processing t\<rparr>"]
      by (simp add: step_def processTasks_step_def Let_def work_left_def)
  qed
next
  case Asleep
  with na show ?thesis by simp
next
  case (Processing t)
  then show ?thesis
    using w sum_list_steps_update[OF w, of "(workers s ! w)
         \<lparr>pc := Finished t (snd (extracted_text lib (ocr_engine (workers s ! w)) t)),
          ocr_engine := fst (extracted_text lib (ocr_engine (workers s ! w)) t)\<rparr>"]
    by (simp add: process_step work_left_def)
next
  case (Finished t r)
  then show ?thesis
    using w sum_list_steps_update[OF w, of "(workers s ! w)\<lparr>pc := Checking\<rparr>"]
    by (simp add: deliver_step work_left_def)
next
  case Exited
  with ne show ?thesis by simp
qed

lemma shutdown_ok_reachable: "shutdown_ok (run lib evs (TaskProcessor lib n))"
  using invariant_reachable[of lib evs n] by (simp add: invariant_def)

lemma no_exit_before_shutdown:
  assumes "shutdown_ok s" "main_thread s = Serving" "w < length (workers s)"
  shows "pc (workers s ! w) \<noteq> Exited"
  using assms by (auto simp add: shutdown_ok_def)

lemma no_sleep_after_notify_all:
  assumes "shutdown_ok s" "shutdown_requested s" "main_thread s \<noteq> Stop_notifying"
    "w < length (workers s)"
  shows "pc (workers s ! w) \<noteq> Asleep"
  using assms by (cases "main_thread s") (auto simp add: shutdown_ok_def)

lemma returned_all_joined:
  assumes "shutdown_ok s" "main_thread s = Stop_returned" "w < length (workers s)"
  shows "pc (workers s ! w) = Exited \<and> joined (workers s ! w) \<and> shutdown_requested s"
  using assms by (auto simp add: shutdown_ok_def)

lemma worker_step_other:
  assumes "w < length (workers s)" "w' \<noteq> w"
  shows "pc (workers (step lib (Worker w') s) ! w) = pc (workers s ! w)"
  by (cases rule: step_cases[of "Worker w'" lib s]) (use assms in auto)

lemma worker_step_frame:
  "shutdown_requested (step lib (Worker w) s) = shutdown_requested s"
  "main_thread (step lib (Worker w) s) = main_thread s"
  by (cases rule: step_cases[of "Worker w" lib s]; simp)+

lemma worker_step_exited:
  assumes "w < length (workers s) \<longrightarrow> pc (workers s ! w) = Exited \<or> pc (workers s ! w) = Asleep"
  shows "step lib (Worker w) s = s"
  using assms by (auto simp add: step_def processTasks_step_def Let_def)

lemma work_left_worker_step:
  assumes "shutdown_requested s"
  shows "work_left (step lib (Worker w) s) \<le> work_left s"
proof (cases "w < length (workers s) \<and> pc (workers s ! w) \<noteq> Exited \<and> pc (workers s ! w) \<noteq> Asleep")
  case True
  then show ?thesis using work_left_decreases[OF assms, of w lib] by simp
next
  case False
  then have "step lib (Worker w) s = s" by (intro worker_step_exited) auto
  then show ?thesis by simp
qed

lemma work_left_workers_run:
  assumes "shutdown_requested s"
  shows "work_left (run lib (map Worker ws) s) \<le> work_left s"
  using assms
proof (induction ws arbitrary: s)
  case Nil
  show ?case by simp
next
  case (Cons w ws)
  have sd: "shutdown_requested (step lib (Worker w) s)"
    using Cons.prems by (simp add: worker_step_frame)
  have "work_left (run lib (map Worker ws) (step lib (Worker w) s))
      \<le> work_left (step lib (Worker w) s)"
    by (rule Cons.IH[OF sd])
  also have "\<dots> \<le> work_left s" by (rule work_left_worker_step[OF Cons.prems])
  finally show ?case by simp
qed

lemma work_left_round_decreases:
  assumes "shutdown_requested s" "w \<in> set ws" "w < length (workers s)"
    "pc (workers s ! w) \<noteq> Exited" "pc (workers s ! w) \<noteq> Asleep"
  shows "work_left (run lib (map Worker ws) s) < work_left s"
  using assms
proof (induction ws arbitrary: s)
  case Nil
  then show ?case by simp
next
  case (Cons w' ws)
  have sd: "shutdown_requested (step lib (Worker w') s)"
    using Cons.prems(1) by (simp add: worker_step_frame)
  show ?case
  proof (cases "w' = w")
    case True
    have "work_left (run lib (map Worker ws) (step lib (Worker w') s))
        \<le> work_left (step lib (Worker w') s)"
      by (rule work_left_workers_run[OF sd])
    also have "\<dots> < work_left s"
      unfolding True
      by (rule work_left_decreases[OF Cons.prems(1) Cons.prems(3) Cons.prems(4) Cons.prems(5)])
    finally show ?thesis by simp
  next
    case False
    then have mem: "w \<in> set ws" using Cons.prems(2) by simp
    have same: "pc (workers (step lib (Worker w') s) ! w) = pc (workers s ! w)"
      by (rule worker_step_other[OF Cons.prems(3) False])
    have len: "w < length (workers (step lib (Worker w') s))"
      using Cons.prems(3) by simp
    have "work_left (run lib (map Worker ws) (step lib (Worker w') s))
        < work_left (step lib (Worker w') s)"
      using Cons.IH[OF sd mem len] same Cons.prems(4) Cons.prems(5) by simp
    also have "\<dots> \<le> work_left s" by (rule work_left_worker_step[OF Cons.prems(1)])
    finally show ?thesis by simp
  qed
qed

lemma shutdown_ok_run: "shutdown_ok s \<Longrightarrow> shutdown_ok (run lib evs s)"
  by (induction evs arbitrary: s) (simp_all add: shutdown_ok_step)

lemma workers_run_frame:
  "shutdown_requested (run lib (map Worker ws) s) = shutdown_requested s"
  "main_thread (run lib (map Worker ws) s) = main_thread s"
  by (induction ws arbitrary: s; simp add: worker_step_frame)+

lemma all_exited_idle:
  assumes "\<forall>w < length (workers s). pc (workers s ! w) = Exited"
  shows "run lib (map Worker ws) s = s"
proof (induction ws)
  case Nil
  show ?case by simp
next
  case (Cons w ws)
  have "step lib (Worker w) s = s"
    using assms by (intro worker_step_exited) auto
  with Cons show ?case by simp
qed

lemma steps_left_zero: "steps_left p = 0 \<longleftrightarrow> p = Exited"
  by (cases p) simp_all

lemma work_left_zero:
  assumes "work_left s = 0" "w < length (workers s)"
  shows "pc (workers s ! w) = Exited"
proof -
  have "sum_list (map (\<lambda>wk. steps_left (pc wk)) (workers s)) = 0"
    using assms(1) by (simp add: work_left_def)
  then have "\<forall>wk \<in> set (workers s). steps_left (pc wk) = 0"
    by (simp add: sum_list_eq_0_iff)
  then have "steps_left (pc (workers s ! w)) = 0"
    using assms(2) by simp
  then show ?thesis by (simp add: steps_left_zero)
qed

lemma worker_rounds_Suc:
  "worker_rounds n (Suc k) = map Worker [0..<n] @ worker_rounds n k"
  by (simp add: worker_rounds_def)

lemma all_exited_rounds:
  assumes "\<forall>w < length (workers s). pc (workers s ! w) = Exited"
  shows "run lib (worker_rounds n k) s = s"
proof (induction k)
  case 0
  show ?case by (simp add: worker_rounds_def)
next
  case (Suc k)
  then show ?case
    by (simp add: worker_rounds_Suc run_append all_exited_idle[OF assms])
qed

lemma workers_drain:
  assumes "shutdown_ok s" "shutdown_requested s" "main_thread s \<noteq> Stop_notifying"
    "length (workers s) = n" "work_left s \<le> k"
  shows "\<forall>w < n. pc (workers (run lib (worker_rounds n k) s) ! w) = Exited"
  using assms
proof (induction k arbitrary: s)
  case 0
  then show ?case by (simp add: worker_rounds_def work_left_zero)
next
  case (Suc k)
  let ?s' = "run lib (map Worker [0..<n]) s"
  show ?case
  proof (cases "\<forall>w < length (workers s). pc (workers s ! w) = Exited")
    case True
    have "run lib (worker_rounds n (Suc k)) s = s"
      by (rule all_exited_rounds[OF True])
    then show ?thesis using True Suc.prems(4) by simp
  next
    case False
    then obtain w where w: "w < length (workers s)" "pc (workers s ! w) \<noteq> Exited" by blast
    have na: "pc (workers s ! w) \<noteq> Asleep"
      by (rule no_sleep_after_notify_all[OF Suc.prems(1) Suc.prems(2) Suc.prems(3) w(1)])
    have mem: "w \<in> set [0..<n]" using w(1) Suc.prems(4) by simp
    have "work_left ?s' < work_left s"
      by (rule work_left_round_decreases[OF Suc.prems(2) mem w(1) w(2) na])
    then have le: "work_left ?s' \<le> k" using Suc.prems(5) by simp
    have 1: "shutdown_ok ?s'" by (rule shutdown_ok_run[OF Suc.prems(1)])
    have 2: "shutdown_requested ?s'" using Suc.prems(2) by (simp add: workers_run_frame)
    have 3: "main_thread ?s' \<noteq> Stop_notifying" using Suc.prems(3) by (simp add: workers_run_frame)
    have 4: "length (workers ?s') = n" using Suc.prems(4) by simp
    have "\<forall>w < n. pc (workers (run lib (worker_rounds n k) ?s') ! w) = Exited"
      by (rule Suc.IH[OF 1 2 3 4 le])
    then show ?thesis by (simp add: worker_rounds_Suc run_append)
  qed
qed

text \<open>
  C9. In every run:
  \<^item> the first step of \<^verbatim>\<open>stopProcessing\<close> sets the shutdown flag, which was not set;
  \<^item> its second step, \<^verbatim>\<open>notify_all\<close>, wakes every blocked worker: none is blocked after it;
  \<^item> its join loop passes worker \<open>i\<close> only when that worker has returned, and marks it
    joined; when the call has returned, every worker has returned and is joined;
  \<^item> a second call changes nothing;
  \<^item> a worker at its wait blocks exactly when neither shutdown is requested nor the queue
    is non-empty, and returns exactly when shutdown is requested and the queue is empty;
    no step of any thread makes a worker return in another way;
  \<^item> once \<^verbatim>\<open>notify_all\<close> is done no worker is blocked, and every step of a worker that
    has not returned reduces the work left (pending tasks and steps to return), so the
    workers drain the queue and return;
  \<^item> from any moment after \<^verbatim>\<open>notify_all\<close>, if the workers alone run, each taking a step in
    turn, then after as many rounds as there is work left every worker has returned;
  \<^item> at any moment after the request at which some worker has returned, every task that
    was in the queue when shutdown was requested has been dequeued.
\<close>

theorem stop_wakes_joins_and_workers_drain:
  "(let S = run lib evs (TaskProcessor lib n);
        S' = run lib evs' (step lib Stop S)
    in (main_thread S = Serving \<longrightarrow>
          \<not> shutdown_requested S \<and>
          shutdown_requested (step lib Stop S) \<and>
          main_thread (step lib Stop S) = Stop_notifying \<and>
          (w < n \<and> pc (workers S' ! w) = Exited \<longrightarrow>
             set (pending_tasks S) \<subseteq> snd ` set (dequeued (queue_log S'))))
     \<and> (main_thread S = Stop_notifying \<longrightarrow>
          workers (step lib Stop S) = map wake (workers S) \<and>
          (w < n \<longrightarrow> pc (workers (step lib Stop S) ! w) \<noteq> Asleep) \<and>
          main_thread (step lib Stop S) = Stop_joining 0)
     \<and> (main_thread S = Stop_joining i \<and> main_thread (step lib Stop S) = Stop_joining (Suc i) \<longrightarrow>
          i < n \<and> pc (workers S ! i) = Exited \<and> joined (workers (step lib Stop S) ! i))
     \<and> (main_thread S = Stop_returned \<longrightarrow>
          (w < n \<longrightarrow> pc (workers S ! w) = Exited \<and> joined (workers S ! w)) \<and>
          step lib Stop S = S)
     \<and> (w < n \<and> pc (workers S ! w) = Checking \<longrightarrow>
          (pc (workers (step lib (Worker w) S) ! w) = Asleep
             \<longleftrightarrow> \<not> (shutdown_requested S \<or> pending_tasks S \<noteq> [])) \<and>
          (pc (workers (step lib (Worker w) S) ! w) = Exited
             \<longleftrightarrow> shutdown_requested S \<and> pending_tasks S = []))
     \<and> (w < n \<and> pc (workers S ! w) \<noteq> Exited \<and> pc (workers (step lib ev S) ! w) = Exited \<longrightarrow>
          ev = Worker w \<and> pc (workers S ! w) = Checking \<and> shutdown_requested S \<and>
          pending_tasks S = [])
     \<and> (shutdown_requested S \<and> main_thread S \<noteq> Stop_notifying \<and> w < n \<and>
        pc (workers S ! w) \<noteq> Exited \<longrightarrow>
          pc (workers S ! w) \<noteq> Asleep \<and>
          work_left (step lib (Worker w) S) < work_left S)
     \<and> (shutdown_requested S \<and> main_thread S \<noteq> Stop_notifying \<and> w < n \<longrightarrow>
          pc (workers (run lib (worker_rounds n (work_left S)) S) ! w) = Exited))"
proof -
  define S where "S = run lib evs (TaskProcessor lib n)"
  define S' where "S' = run lib evs' (step lib Stop S)"
  have inv: "invariant S" unfolding S_def by (rule invariant_reachable)
  then have sok: "shutdown_ok S" and fok: "fifo_ok S" by (simp_all add: invariant_def)
  have len: "length (workers S) = n" by (simp add: S_def)
  have c1: "\<not> shutdown_requested S \<and>
          shutdown_requested (step lib Stop S) \<and>
          main_thread (step lib Stop S) = Stop_notifying \<and>
          (w < n \<and> pc (workers S' ! w) = Exited \<longrightarrow>
             set (pending_tasks S) \<subseteq> snd ` set (dequeued (queue_log S')))"
    if m: "main_thread S = Serving"
  proof -
    have ns: "\<not> shutdown_requested S" using sok m by (simp add: shutdown_ok_def)
    have eq: "step lib Stop S = S\<lparr>shutdown_requested := True, main_thread := Stop_notifying\<rparr>"
      by (rule stop_flag_step[OF m ns])
    have f1: "fifo_ok (step lib Stop S)" using fok by (rule fifo_ok_step)
    have sub: "set (pending_tasks S) \<subseteq> set (submitted (queue_log (step lib Stop S)))"
    proof -
      have "set (pending_tasks S) \<subseteq> set (map snd (dequeued (queue_log S)) @ pending_tasks S)"
        by auto
      moreover have "map snd (dequeued (queue_log S)) @ pending_tasks S = submitted (queue_log S)"
        using fok by (simp add: fifo_ok_def)
      ultimately have "set (pending_tasks S) \<subseteq> set (submitted (queue_log S))"
        by metis
      then show ?thesis by (simp add: eq)
    qed
    have none: "\<forall>w < length (workers (step lib Stop S)).
        pc (workers (step lib Stop S) ! w) = Exited \<longrightarrow>
        set (pending_tasks S) \<subseteq> snd ` set (dequeued (queue_log (step lib Stop S)))"
      using no_exit_before_shutdown[OF sok m] by (simp add: eq)
    have all: "\<forall>w < length (workers S'). pc (workers S' ! w) = Exited \<longrightarrow>
        set (pending_tasks S) \<subseteq> snd ` set (dequeued (queue_log S'))"
      unfolding S'_def by (rule drained_run[OF f1 sub none])
    have "length (workers S') = n" by (simp add: S'_def len)
    with all have "w < n \<and> pc (workers S' ! w) = Exited \<longrightarrow>
             set (pending_tasks S) \<subseteq> snd ` set (dequeued (queue_log S'))"
      by blast
    with ns show ?thesis by (simp add: eq)
  qed
  have c2: "workers (step lib Stop S) = map wake (workers S) \<and>
          (w < n \<longrightarrow> pc (workers (step lib Stop S) ! w) \<noteq> Asleep) \<and>
          main_thread (step lib Stop S) = Stop_joining 0"
    if m: "main_thread S = Stop_notifying"
    using len by (simp add: notify_all_step[OF m] notify_all_def pc_wake)
  have c3: "i < n \<and> pc (workers S ! i) = Exited \<and> joined (workers (step lib Stop S) ! i)"
    if "main_thread S = Stop_joining i" "main_thread (step lib Stop S) = Stop_joining (Suc i)"
    using join_step[OF sok that] len by simp
  have c4: "(w < n \<longrightarrow> pc (workers S ! w) = Exited \<and> joined (workers S ! w)) \<and>
          step lib Stop S = S"
    if m: "main_thread S = Stop_returned"
  proof -
    have "shutdown_requested S" using sok m by (simp add: shutdown_ok_def)
    then have "step lib Stop S = S" by (rule stop_again_step[OF m])
    then show ?thesis using returned_all_joined[OF sok m, of w] len by simp
  qed
  have c5: "(pc (workers (step lib (Worker w) S) ! w) = Asleep
             \<longleftrightarrow> \<not> (shutdown_requested S \<or> pending_tasks S \<noteq> [])) \<and>
          (pc (workers (step lib (Worker w) S) ! w) = Exited
             \<longleftrightarrow> shutdown_requested S \<and> pending_tasks S = [])"
    if "w < n" "pc (workers S ! w) = Checking"
    using checking_step[of w S lib] that len by simp
  have c6: "ev = Worker w \<and> pc (workers S ! w) = Checking \<and> shutdown_requested S \<and>
          pending_tasks S = []"
    if "w < n" "pc (workers S ! w) \<noteq> Exited" "pc (workers (step lib ev S) ! w) = Exited"
    using exit_only_on_shutdown[of w S lib ev] that len by simp
  have c7: "pc (workers S ! w) \<noteq> Asleep \<and> work_left (step lib (Worker w) S) < work_left S"
    if h: "shutdown_requested S" "main_thread S \<noteq> Stop_notifying" "w < n"
      "pc (workers S ! w) \<noteq> Exited"
  proof -
    have wl: "w < length (workers S)" using h(3) len by simp
    have na: "pc (workers S ! w) \<noteq> Asleep"
      by (rule no_sleep_after_notify_all[OF sok h(1) h(2) wl])
    show ?thesis using na work_left_decreases[OF h(1) wl h(4) na] by simp
  qed
  have c8: "pc (workers (run lib (worker_rounds n (work_left S)) S) ! w) = Exited"
    if h: "shutdown_requested S" "main_thread S \<noteq> Stop_notifying" "w < n"
    using workers_drain[OF sok h(1) h(2) len, of "work_left S" lib] h(3) by simp
  from c1 c2 c3 c4 c5 c6 c7 c8 show ?thesis
    unfolding Let_def S_def S'_def by blast
qed

lemma replicate_2: "replicate 2 x = [x, x]"
  by (simp add: numeral_2_eq_2)

lemma worker_rounds_2_6:
  "worker_rounds 2 6 =
     [Worker 0, Worker 1, Worker 0, Worker 1, Worker 0, Worker 1,
      Worker 0, Worker 1, Worker 0, Worker 1, Worker 0, Worker 1]"
  by (simp add: worker_rounds_def eval_nat_numeral upt_rec)

theorem stop_wakes_joins_and_workers_drain_witness:
  "main_thread (run demo_lib demo_two_asleep (TaskProcessor demo_lib 2)) = Serving
   \<and> pending_tasks (run demo_lib demo_two_asleep (TaskProcessor demo_lib 2)) = [demo_task]
   \<and> map (\<lambda>wk. pc wk) (workers (run demo_lib demo_two_asleep (TaskProcessor demo_lib 2)))
       = [Asleep, Asleep]
   \<and> shutdown_requested (run demo_lib (demo_two_asleep @ [Stop]) (TaskProcessor demo_lib 2))
   \<and> main_thread (run demo_lib (demo_two_asleep @ [Stop]) (TaskProcessor demo_lib 2))
       = Stop_notifying
   \<and> map (\<lambda>wk. pc wk) (workers (run demo_lib (demo_two_asleep @ [Stop, Stop])
        (TaskProcessor demo_lib 2))) = [Checking, Checking]
   \<and> pc (workers (run demo_lib (demo_two_asleep @ [Stop, Stop, Worker 0])
        (TaskProcessor demo_lib 2)) ! 0) = Processing demo_task
   \<and> work_left (run demo_lib (demo_two_asleep @ [Stop, Stop]) (TaskProcessor demo_lib 2)) = 6
   \<and> work_left (run demo_lib (demo_two_asleep @ [Stop, Stop, Worker 0])
        (TaskProcessor demo_lib 2)) = 4
   \<and> pc (workers (run demo_lib (demo_two_asleep @ [Stop, Stop, Worker 0, Worker 1])
        (TaskProcessor demo_lib 2)) ! 1) = Exited
   \<and> dequeued (queue_log (run demo_lib (demo_two_asleep @ [Stop, Stop, Worker 0, Worker 1])
        (TaskProcessor demo_lib 2))) = [(0, demo_task)]
   \<and> main_thread (run demo_lib (demo_two_asleep @ take 7 demo_shutdown)
        (TaskProcessor demo_lib 2)) = Stop_joining 0
   \<and> main_thread (run demo_lib (demo_two_asleep @ take 8 demo_shutdown)
        (TaskProcessor demo_lib 2)) = Stop_joining 1
   \<and> main_thread (run demo_lib (demo_two_asleep @ demo_shutdown) (TaskProcessor demo_lib 2))
       = Stop_returned
   \<and> map (\<lambda>wk. (pc wk, joined wk))
        (workers (run demo_lib (demo_two_asleep @ demo_shutdown) (TaskProcessor demo_lib 2)))
       = [(Exited, True), (Exited, True)]
   \<and> promises (run demo_lib (demo_two_asleep @ demo_shutdown) (TaskProcessor demo_lib 2)) 0
       = Some ''xx''
   \<and> run demo_lib (demo_two_asleep @ demo_shutdown @ [Stop]) (TaskProcessor demo_lib 2)
       = run demo_lib (demo_two_asleep @ demo_shutdown) (TaskProcessor demo_lib 2)
   \<and> pc (workers (run demo_lib [Worker 0] (TaskProcessor demo_lib 2)) ! 0) = Checking
   \<and> pc (workers (run demo_lib [Worker 0, Worker 0] (TaskProcessor demo_lib 2)) ! 0) = Asleep
   \<and> map (\<lambda>wk. pc wk) (workers (run demo_lib (demo_two_asleep @ [Stop, Stop] @ worker_rounds 2 6)
        (TaskProcessor demo_lib 2))) = [Exited, Exited]
   \<and> pending_tasks (run demo_lib (demo_two_asleep @ [Stop, Stop] @ worker_rounds 2 6)
        (TaskProcessor demo_lib 2)) = []"
  using stop_wakes_joins_and_workers_drain
      [where lib = demo_lib and evs = demo_two_asleep and n = 2 and w = 1
         and evs' = "[Stop, Worker 0, Worker 1]" and i = 0 and ev = Stop]
    stop_wakes_joins_and_workers_drain
      [where lib = demo_lib and evs = "demo_two_asleep @ [Stop]" and n = 2 and w = 0
         and evs' = "[]" and i = 0 and ev = Stop]
    stop_wakes_joins_and_workers_drain
      [where lib = demo_lib and evs = "demo_two_asleep @ [Stop, Stop]" and n = 2 and w = 0
         and evs' = "[]" and i = 0 and ev = Stop]
    stop_wakes_joins_and_workers_drain
      [where lib = demo_lib and evs = "demo_two_asleep @ [Stop, Stop, Worker 0]" and n = 2
         and w = 1 and evs' = "[]" and i = 0 and ev = "Worker 1"]
    stop_wakes_joins_and_workers_drain
      [where lib = demo_lib and evs = "demo_two_asleep @ take 7 demo_shutdown" and n = 2
         and w = 0 and evs' = "[]" and i = 0 and ev = Stop]
    stop_wakes_joins_and_workers_drain
      [where lib = demo_lib and evs = "demo_two_asleep @ demo_shutdown" and n = 2
         and w = 0 and evs' = "[]" and i = 0 and ev = Stop]
    stop_wakes_joins_and_workers_drain
      [where lib = demo_lib and evs = "[Worker 0]" and n = 2
         and w = 0 and evs' = "[]" and i = 0 and ev = Stop]
  by (simp add: eval_defs work_left_def replicate_2 worker_rounds_2_6)

section \<open>The language hint (C10)\<close>

lemma erase_task_fields [simp]:
  "image_data (erase_task t) = image_data t"
  "text_promise (erase_task t) = text_promise t"
  "task_start_time (erase_task t) = task_start_time t"
  "file_name (erase_task t) = file_name t"
  by (simp_all add: erase_task_def)

lemma try_block_erase [simp]: "try_block lib eng (erase_task t) = try_block lib eng t"
  by (simp add: try_block_def)

lemma extracted_text_erase [simp]: "extracted_text lib eng (erase_task t) = extracted_text lib eng t"
  by (simp add: extracted_text_def)

lemma completed_response_erase [simp]:
  "completed_response v now (erase_task t) = completed_response v now t"
  by (simp add: completed_response_def)

lemma erase_worker_fields [simp]:
  "pc (erase_worker wk) = erase_worker_pc (pc wk)"
  "ocr_engine (erase_worker wk) = ocr_engine wk"
  "joined (erase_worker wk) = joined wk"
  by (simp_all add: erase_worker_def)

lemma erase_worker_pc_eq [simp]:
  "erase_worker_pc p = Asleep \<longleftrightarrow> p = Asleep"
  "erase_worker_pc p = Exited \<longleftrightarrow> p = Exited"
  "erase_worker_pc p = Starting \<longleftrightarrow> p = Starting"
  "erase_worker_pc p = Checking \<longleftrightarrow> p = Checking"
  by (cases p; simp)+

lemma erase_worker_update [simp]:
  "erase_worker (wk\<lparr>pc := p\<rparr>) = (erase_worker wk)\<lparr>pc := erase_worker_pc p\<rparr>"
  "erase_worker (wk\<lparr>ocr_engine := e\<rparr>) = (erase_worker wk)\<lparr>ocr_engine := e\<rparr>"
  "erase_worker (wk\<lparr>joined := j\<rparr>) = (erase_worker wk)\<lparr>joined := j\<rparr>"
  by (simp_all add: erase_worker_def)

lemma wake_erase [simp]: "wake (erase_worker wk) = erase_worker (wake wk)"
  by (simp add: wake_def)

lemma wake_first_erase [simp]: "wake_first (map erase_worker ws) = map erase_worker (wake_first ws)"
  by (induction ws) simp_all

lemma notify_one_erase [simp]:
  "notify_one k (map erase_worker ws) = map erase_worker (notify_one k ws)"
  by (auto simp add: notify_one_def map_update)

lemma notify_all_erase [simp]:
  "notify_all (map erase_worker ws) = map erase_worker (notify_all ws)"
  by (simp add: notify_all_def)

lemma erase_state_fields [simp]:
  "pending_tasks (erase_state s) = map erase_task (pending_tasks s)"
  "workers (erase_state s) = map erase_worker (workers s)"
  "handlers (erase_state s) = map erase_handler_pc (handlers s)"
  "queue_log (erase_state s) = map erase_log_entry (queue_log s)"
  "promises (erase_state s) = promises s"
  "next_promise (erase_state s) = next_promise s"
  "shutdown_requested (erase_state s) = shutdown_requested s"
  "main_thread (erase_state s) = main_thread s"
  "clock (erase_state s) = clock s"
  by (simp_all add: erase_state_def)

lemma erase_state_step: "step lib (erase_event ev) (erase_state s) = erase_state (step lib ev s)"
proof (cases ev)
  case (Tick d)
  then show ?thesis by (simp add: step_def erase_state_def)
next
  case (Receive ctx req)
  then show ?thesis
    by (simp add: step_def ProcessImage_begin_def erase_state_def new_task_def erase_task_def)
next
  case (Handler h k)
  show ?thesis
  proof (cases "h < length (handlers s)")
    case True
    show ?thesis
    proof (cases "handlers s ! h")
      case (Created t)
      with Handler True show ?thesis
        by (simp add: step_def ProcessImage_step_def submitTask_locked_def erase_state_def
            map_update)
    next
      case (Notifying t)
      with Handler True show ?thesis
        by (simp add: step_def ProcessImage_step_def erase_state_def map_update)
    next
      case (Calling_wait t)
      with Handler True show ?thesis
        by (simp add: step_def ProcessImage_step_def erase_state_def map_update)
    next
      case (Waiting t d)
      with Handler True show ?thesis
        by (cases "promises s (text_promise t)")
           (simp_all add: step_def ProcessImage_step_def erase_state_def map_update)
    next
      case (Responded r)
      with Handler True show ?thesis
        by (simp add: step_def ProcessImage_step_def)
    qed
  next
    case False
    with Handler show ?thesis by (simp add: step_def)
  qed
next
  case (Worker w)
  show ?thesis
  proof (cases "w < length (workers s)")
    case True
    show ?thesis
    proof (cases "pc (workers s ! w)")
      case Starting
      with Worker True show ?thesis
        by (simp add: step_def processTasks_step_def Let_def erase_state_def map_update
            split: prod.splits)
    next
      case Checking
      with Worker True show ?thesis
        by (cases "pending_tasks s")
           (simp_all add: step_def processTasks_step_def Let_def erase_state_def map_update)
    next
      case Asleep
      with Worker True show ?thesis
        by (simp add: step_def processTasks_step_def Let_def)
    next
      case (Processing t)
      with Worker True show ?thesis
        by (simp add: step_def processTasks_step_def Let_def erase_state_def map_update
            split: prod.splits)
    next
      case (Finished t r)
      with Worker True show ?thesis
        by (simp add: step_def processTasks_step_def Let_def erase_state_def map_update)
    next
      case Exited
      with Worker True show ?thesis
        by (simp add: step_def processTasks_step_def Let_def)
    qed
  next
    case False
    with Worker show ?thesis by (simp add: step_def)
  qed
next
  case (Spurious w)
  then show ?thesis
    by (simp add: step_def spurious_wakeup_def erase_state_def map_update)
next
  case Stop
  then show ?thesis
    by (cases "main_thread s")
       (simp_all add: step_def stopProcessing_step_def stopProcessing_locked_def erase_state_def
          map_update)
qed

lemma erase_state_run:
  "run lib (map erase_event evs) (erase_state s) = erase_state (run lib evs s)"
  by (induction evs arbitrary: s) (simp_all add: erase_state_step)

lemma erase_state_TaskProcessor: "erase_state (TaskProcessor lib n) = TaskProcessor lib n"
  by (simp add: erase_state_def TaskProcessor_def erase_worker_def)

lemma response_of_erase [simp]: "response_of (erase_handler_pc hp) = response_of hp"
  by (cases hp) simp_all

lemma observables_erase:
  "promises (erase_state s) = promises s"
  "map response_of (handlers (erase_state s)) = map response_of (handlers s)"
  "map ocr_engine (workers (erase_state s)) = map ocr_engine (workers s)"
  by (simp_all add: comp_def)

lemma erased_runs_equal:
  assumes "map erase_event evs = map erase_event evs'"
  shows "erase_state (run lib evs (TaskProcessor lib n))
       = erase_state (run lib evs' (TaskProcessor lib n))"
proof -
  have "erase_state (run lib evs (TaskProcessor lib n))
      = run lib (map erase_event evs) (TaskProcessor lib n)"
    using erase_state_run[of lib evs "TaskProcessor lib n"]
    by (simp add: erase_state_TaskProcessor)
  also have "\<dots> = run lib (map erase_event evs') (TaskProcessor lib n)"
    using assms by simp
  also have "\<dots> = erase_state (run lib evs' (TaskProcessor lib n))"
    using erase_state_run[of lib evs' "TaskProcessor lib n"]
    by (simp add: erase_state_TaskProcessor)
  finally show ?thesis .
qed

lemma never_back_to_starting:
  assumes "w < length (workers s)" "pc (workers s ! w) \<noteq> Starting"
  shows "pc (workers (step lib ev s) ! w) \<noteq> Starting"
proof (cases rule: step_cases[of ev lib s])
  case (Notify h k t)
  with assms notify_one_pc[of w "workers s" k] show ?thesis by auto
next
  case Notify_all
  with assms show ?thesis by (simp add: pc_wake)
qed (use assms in \<open>auto simp add: nth_list_update\<close>)

text \<open>
  C10. Two runs of the server that differ only in the \<^verbatim>\<open>lang\<close> fields of the requests
  received end with the same value in every promise (the recognised texts), the same
  response for every request, and the same engine state in every worker. The language of
  a request is stored on its task and the processing of a task does not depend on it.
  A worker initialises its engine in its first step, with the language "eng", and never
  goes back to that step. The reference client sends "eng" in every request.
\<close>

theorem language_hint_has_no_effect:
  "(map erase_event evs = map erase_event evs' \<longrightarrow>
      promises (run lib evs (TaskProcessor lib n)) = promises (run lib evs' (TaskProcessor lib n)) \<and>
      map response_of (handlers (run lib evs (TaskProcessor lib n)))
        = map response_of (handlers (run lib evs' (TaskProcessor lib n))) \<and>
      map ocr_engine (workers (run lib evs (TaskProcessor lib n)))
        = map ocr_engine (workers (run lib evs' (TaskProcessor lib n))))
   \<and> language_code (new_task request p now) = lang request
   \<and> try_block lib eng (t\<lparr>language_code := l\<rparr>) = try_block lib eng t
   \<and> (w < length (workers s) \<and> pc (workers s ! w) = Starting \<longrightarrow>
        pc (workers (step lib (Worker w) s) ! w) = Checking \<and>
        ocr_engine (workers (step lib (Worker w) s) ! w)
          = fst (Init lib (ocr_engine (workers s ! w)) ''/opt/homebrew/share/tessdata'' ''eng''))
   \<and> (w < length (workers s) \<and> pc (workers s ! w) \<noteq> Starting \<longrightarrow>
        pc (workers (step lib ev s) ! w) \<noteq> Starting)
   \<and> lang (extraction_request session_identifier job_group_id file_path image_bytes) = ''eng''"
proof -
  have a: "promises (run lib evs (TaskProcessor lib n)) = promises (run lib evs' (TaskProcessor lib n)) \<and>
      map response_of (handlers (run lib evs (TaskProcessor lib n)))
        = map response_of (handlers (run lib evs' (TaskProcessor lib n))) \<and>
      map ocr_engine (workers (run lib evs (TaskProcessor lib n)))
        = map ocr_engine (workers (run lib evs' (TaskProcessor lib n)))"
    if "map erase_event evs = map erase_event evs'"
  proof -
    have eq: "erase_state (run lib evs (TaskProcessor lib n))
        = erase_state (run lib evs' (TaskProcessor lib n))"
      by (rule erased_runs_equal[OF that])
    have p: "promises (run lib evs (TaskProcessor lib n))
        = promises (run lib evs' (TaskProcessor lib n))"
      using arg_cong[OF eq, of promises] by (simp only: observables_erase)
    have r: "map response_of (handlers (run lib evs (TaskProcessor lib n)))
        = map response_of (handlers (run lib evs' (TaskProcessor lib n)))"
      using arg_cong[OF eq, of "\<lambda>s. map response_of (handlers s)"]
      by (simp only: observables_erase)
    have g: "map ocr_engine (workers (run lib evs (TaskProcessor lib n)))
        = map ocr_engine (workers (run lib evs' (TaskProcessor lib n)))"
      using arg_cong[OF eq, of "\<lambda>s. map ocr_engine (workers s)"]
      by (simp only: observables_erase)
    from p r g show ?thesis by simp
  qed
  have b: "language_code (new_task request p now) = lang request"
    by (simp add: new_task_def)
  have c: "try_block lib eng (t\<lparr>language_code := l\<rparr>) = try_block lib eng t"
    by (rule try_block_image_data) simp
  have d: "pc (workers (step lib (Worker w) s) ! w) = Checking \<and>
        ocr_engine (workers (step lib (Worker w) s) ! w)
          = fst (Init lib (ocr_engine (workers s ! w)) ''/opt/homebrew/share/tessdata'' ''eng'')"
    if "w < length (workers s)" "pc (workers s ! w) = Starting"
    using that by (simp add: init_step)
  have e: "pc (workers (step lib ev s) ! w) \<noteq> Starting"
    if "w < length (workers s)" "pc (workers s ! w) \<noteq> Starting"
    using that by (rule never_back_to_starting)
  have f: "lang (extraction_request session_identifier job_group_id file_path image_bytes) = ''eng''"
    by (simp add: extraction_request_def)
  from a b c d e f show ?thesis by blast
qed

theorem language_hint_has_no_effect_witness:
  "map erase_event (demo_completed_with ''eng'') = map erase_event (demo_completed_with ''fra'')
   \<and> promises (run demo_lib (demo_completed_with ''eng'') (TaskProcessor demo_lib 1)) 0
       = Some ''xx''
   \<and> promises (run demo_lib (demo_completed_with ''fra'') (TaskProcessor demo_lib 1)) 0
       = Some ''xx''
   \<and> map response_of (handlers (run demo_lib (demo_completed_with ''eng'')
        (TaskProcessor demo_lib 1)))
       = [Some \<lparr>ok = True, text = ''xx'', message = [], processing_time_ms = 0\<rparr>]
   \<and> map response_of (handlers (run demo_lib (demo_completed_with ''fra'')
        (TaskProcessor demo_lib 1)))
       = [Some \<lparr>ok = True, text = ''xx'', message = [], processing_time_ms = 0\<rparr>]
   \<and> language_code (new_task ((demo_request [1, 2])\<lparr>lang := ''fra''\<rparr>) 0 0) = ''fra''
   \<and> pc (workers (TaskProcessor demo_lib 1) ! 0) = Starting
   \<and> pc (workers (run demo_lib [Worker 0] (TaskProcessor demo_lib 1)) ! 0) = Checking
   \<and> pc (workers (run demo_lib [Worker 0, Worker 0] (TaskProcessor demo_lib 1)) ! 0) = Asleep"
  using language_hint_has_no_effect
      [where lib = demo_lib and evs = "demo_completed_with ''eng''"
         and evs' = "demo_completed_with ''fra''" and n = 1
         and request = "(demo_request [1, 2])\<lparr>lang := ''fra''\<rparr>" and p = 0 and now = 0
         and w = 0 and s = "TaskProcessor demo_lib 1" and ev = "Worker 0"]
    language_hint_has_no_effect
      [where lib = demo_lib and evs = "demo_completed_with ''eng''"
         and evs' = "demo_completed_with ''fra''" and n = 1
         and w = 0 and s = "run demo_lib [Worker 0] (TaskProcessor demo_lib 1)"
         and ev = "Worker 0"]
  by (simp add: eval_defs)

end
